theory Spec2Isabelle
  imports Main "HOL-Library.Word"
begin

section \<open>Configuration values (config/config.go)\<close>

text \<open>
  The four configuration structs are flat records of strings. The field names carry a
  prefix for the backend, since several structs share field names
  (\<open>Domain\<close>, \<open>SecretKey\<close>, \<open>BucketName\<close>, \<open>Region\<close>).
\<close>

record LocalConfig =
  BasePath :: string

record QiniuConfig =
  Q_AccessKey :: string
  Q_SecretKey :: string
  Q_Bucket :: string
  Q_Domain :: string
  Q_Region :: string

record AliyunConfig =
  A_Endpoint :: string
  A_AccessKeyID :: string
  A_AccessKeySecret :: string
  A_BucketName :: string
  A_Domain :: string

record TencentConfig =
  T_SecretID :: string
  T_SecretKey :: string
  T_BucketName :: string
  T_Region :: string
  T_Domain :: string

text \<open>
  \<open>NewUploader\<close> receives its configuration as \<^verbatim>\<open>interface{}\<close>: a value of any dynamic
  type. The type assertions of the factory succeed on exactly one struct type each, so
  the model distinguishes the four config structs from every other dynamic value
  (\<^verbatim>\<open>nil\<close>, a string, a pointer to a config struct).
\<close>

datatype any =
    LocalCfg LocalConfig
  | QiniuCfg QiniuConfig
  | AliyunCfg AliyunConfig
  | TencentCfg TencentConfig
  | NilVal
  | StringVal string
  | LocalCfgPtr LocalConfig

section \<open>Bytes, time and formatting\<close>

type_synonym byte = "8 word"
type_synonym bytes = "byte list"

text \<open>
  One reading of \<^verbatim>\<open>time.Now()\<close>: the civil date of the local time zone, which
  \<^verbatim>\<open>Format("2006/01/02")\<close> prints, and the \<^verbatim>\<open>int64\<close> that \<^verbatim>\<open>UnixNano()\<close> returns.
\<close>

record Time =
  year :: int
  month :: int
  day :: int
  unixNano :: "64 word"

definition digit :: "nat \<Rightarrow> char" where
  "digit d = ''0123456789'' ! d"

function digits :: "nat \<Rightarrow> string" where
  "digits n = (if n < 10 then [digit n] else digits (n div 10) @ [digit (n mod 10)])"
  by pat_completeness auto
termination
  by (relation "measure id") auto

declare digits.simps [simp del]

text \<open>The verb \<^verbatim>\<open>%d\<close> of \<^verbatim>\<open>fmt.Sprintf\<close> on a signed integer.\<close>

definition fmt_d :: "int \<Rightarrow> string" where
  "fmt_d i = (if i < 0 then CHR ''-'' # digits (nat (- i)) else digits (nat i))"

text \<open>
  \<^verbatim>\<open>appendInt(b, x, width)\<close> of package time: a minus sign for a negative value, then the
  decimal digits padded with zeros to the width.
\<close>

definition appendInt :: "int \<Rightarrow> nat \<Rightarrow> string" where
  "appendInt x width =
     (let ds = digits (nat \<bar>x\<bar>)
      in (if x < 0 then ''-'' else '''') @ replicate (width - length ds) CHR ''0'' @ ds)"

text \<open>\<^verbatim>\<open>t.Format("2006/01/02")\<close>: four-digit year, two-digit month, two-digit day.\<close>

definition Format_date :: "Time \<Rightarrow> string" where
  "Format_date t = appendInt (year t) 4 @ ''/'' @ appendInt (month t) 2 @ ''/'' @ appendInt (day t) 2"

section \<open>Paths (package path/filepath, Unix)\<close>

definition sep :: char where
  "sep = CHR ''/''"

text \<open>
  \<^verbatim>\<open>filepath.Ext\<close> scans the path from its end and stops at the first separator (no
  extension) or at the first dot (the extension starts there).
\<close>

fun ext_scan :: "string \<Rightarrow> string \<Rightarrow> string" where
  "ext_scan [] acc = ''''"
| "ext_scan (c # cs) acc =
     (if c = sep then '''' else if c = CHR ''.'' then c # acc else ext_scan cs (c # acc))"

definition Ext :: "string \<Rightarrow> string" where
  "Ext path = ext_scan (rev path) []"

text \<open>
  \<^verbatim>\<open>filepath.Base\<close>: the empty path gives \<^verbatim>\<open>"."\<close>; trailing separators are stripped; the
  last element is returned, or \<^verbatim>\<open>"/"\<close> when the path held separators only.
\<close>

definition Base :: "string \<Rightarrow> string" where
  "Base path =
     (if path = [] then ''.''
      else let stripped = dropWhile (\<lambda>c. c = sep) (rev path);
               elem = rev (takeWhile (\<lambda>c. c \<noteq> sep) stripped)
           in if elem = [] then [sep] else elem)"

definition HasSuffix :: "string \<Rightarrow> string \<Rightarrow> bool" where
  "HasSuffix s suffix =
     (length suffix \<le> length s \<and> drop (length s - length suffix) s = suffix)"

definition TrimSuffix :: "string \<Rightarrow> string \<Rightarrow> string" where
  "TrimSuffix s suffix =
     (if HasSuffix s suffix then take (length s - length suffix) s else s)"

text \<open>\<^verbatim>\<open>strings.Split(s, "/")\<close> and \<^verbatim>\<open>strings.Join(elems, "/")\<close>.\<close>

fun split_sep :: "string \<Rightarrow> string list" where
  "split_sep [] = [[]]"
| "split_sep (c # cs) =
     (if c = sep then [] # split_sep cs
      else (c # hd (split_sep cs)) # tl (split_sep cs))"

fun join_sep :: "string list \<Rightarrow> string" where
  "join_sep [] = []"
| "join_sep [x] = x"
| "join_sep (x # y # ys) = x @ sep # join_sep (y # ys)"

text \<open>
  \<^verbatim>\<open>filepath.Clean\<close> works element by element, writing the elements it keeps to an output
  buffer: an empty element and \<^verbatim>\<open>.\<close> are dropped; \<^verbatim>\<open>..\<close> removes the last element written
  when that is not itself \<^verbatim>\<open>..\<close>, is dropped at the root of a rooted path, and is written
  otherwise; every other element is written. The buffer is the list \<open>out\<close>, its last
  element first. An empty result is \<^verbatim>\<open>"."\<close>.
\<close>

definition clean_elem :: "bool \<Rightarrow> string list \<Rightarrow> string \<Rightarrow> string list" where
  "clean_elem rooted out e =
     (if e = '''' \<or> e = ''.'' then out
      else if e = ''..'' then
        (case out of
           [] \<Rightarrow> if rooted then [] else [''..'']
         | l # ls \<Rightarrow> if l = ''..'' then ''..'' # out else ls)
      else e # out)"

definition is_rooted :: "string \<Rightarrow> bool" where
  "is_rooted path = (path \<noteq> [] \<and> hd path = sep)"

definition render :: "bool \<Rightarrow> string list \<Rightarrow> string" where
  "render rooted out =
     (let s = (if rooted then [sep] else []) @ join_sep (rev out)
      in if s = [] then ''.'' else s)"

definition Clean :: "string \<Rightarrow> string" where
  "Clean path =
     (if path = [] then ''.''
      else let rooted = is_rooted path
           in render rooted (foldl (clean_elem rooted) [] (split_sep path)))"

text \<open>
  \<^verbatim>\<open>filepath.Join\<close>: leading empty elements are ignored; the rest is joined with
  separators and cleaned; no non-empty element gives the empty string.
\<close>

fun Join :: "string list \<Rightarrow> string" where
  "Join [] = ''''"
| "Join (e # es) = (if e = '''' then Join es else Clean (join_sep (e # es)))"

text \<open>
  \<^verbatim>\<open>filepath.Rel\<close> cleans both paths, strips their common leading elements and climbs
  with \<^verbatim>\<open>..\<close> out of what is left of the base. It fails when one path is rooted and the
  other is not, and when the base would have to be left through a \<^verbatim>\<open>..\<close> element of
  its own. Its loop visits the elements between separators and stops at the end of
  the string, so a trailing separator opens no further element.
\<close>

definition elems :: "string \<Rightarrow> string list" where
  "elems s = (let xs = split_sep s in if last xs = [] then butlast xs else xs)"

fun strip_common :: "string list \<Rightarrow> string list \<Rightarrow> string list \<times> string list" where
  "strip_common (b # bs) (t # ts) = (if b = t then strip_common bs ts else (b # bs, t # ts))"
| "strip_common bs ts = (bs, ts)"

datatype rel_error = CantMakeRelative

definition Rel :: "string \<Rightarrow> string \<Rightarrow> rel_error + string" where
  "Rel basepath targpath =
     (let base = Clean basepath; targ = Clean targpath
      in if targ = base then Inr ''.''
         else let base = (if base = ''.'' then '''' else base)
              in if is_rooted base \<noteq> is_rooted targ then Inl CantMakeRelative
                 else case strip_common (elems base) (elems targ) of
                        (brest, trest) \<Rightarrow>
                          if brest \<noteq> [] \<and> hd brest = ''..'' then Inl CantMakeRelative
                          else if brest \<noteq> [] then
                            Inr (join_sep (replicate (length brest) ''..'' @ trest))
                          else Inr (join_sep trest))"

section \<open>Errors\<close>

text \<open>
  An \<^verbatim>\<open>error\<close> of the Go standard library or of a vendor SDK, as far as the code
  looks at it: \<^verbatim>\<open>os.IsNotExist\<close> holds of \<open>NotExist\<close> only.
\<close>

datatype io_error = NotExist | IoFailure

text \<open>\<^verbatim>\<open>base64.CorruptInputError\<close> with the offset of the offending byte.\<close>

datatype b64_error = CorruptInput nat

text \<open>
  The errors the repository creates, one constructor for each message; an argument is
  the wrapped cause (\<^verbatim>\<open>%w\<close>, \<^verbatim>\<open>%v\<close>) or the path printed into the message.
  \<^item> \<open>ErrInvalidConfig\<close>, \<open>ErrUnsupportedType\<close>: the two variables of package uploader;
  \<^item> \<open>ConfigIncomplete\<close>: "qiniu config is incomplete", "aliyun OSS configuration is
    incomplete", "tencent COS configuration is incomplete";
  \<^item> \<open>ClientFailed\<close>: "failed to create OSS client"; \<open>BucketFailed\<close>: "failed to get
    bucket"; \<open>ParseFailed\<close>: "failed to parse COS URL"; \<open>ConnectFailed\<close>: "failed to
    connect to COS bucket";
  \<^item> \<open>NilFileHeader\<close>: "file header cannot be nil"; \<open>EmptyFileName\<close>: the file name
    message of qiniu; \<open>EmptyContent\<close>: "content cannot be empty"; \<open>EmptyBase64\<close>:
    "base64 content cannot be empty"; \<open>EmptyKey\<close>: "object key cannot be empty" and
    the file path message of qiniu;
  \<^item> \<open>DecodeFailed\<close>: "failed to decode base64";
  \<^item> \<open>OpenFailed\<close>: "failed to open uploaded file"; \<open>ReadFailed\<close>: the read message of
    qiniu; \<open>GenPathFailed\<close>: "failed to generate file path: failed to create storage
    directory"; \<open>CreateFailed\<close>: "failed to create destination file"; \<open>SaveFailed\<close>:
    "failed to save file"; \<open>WriteFailed\<close>: "failed to write file"; \<open>UploadFailed\<close>:
    "failed to upload ... to OSS/COS" and the upload message of qiniu;
  \<^item> \<open>FileNotExists\<close>: "file not exists: <path>"; \<open>DeleteFailed\<close>: "failed to delete
    file", "failed to delete OSS object", "failed to delete COS object" and the
    delete message of qiniu.
\<close>

datatype error =
    ErrInvalidConfig
  | ErrUnsupportedType
  | ConfigIncomplete
  | ClientFailed io_error
  | BucketFailed io_error
  | ParseFailed io_error
  | ConnectFailed io_error
  | NilFileHeader
  | EmptyFileName
  | EmptyContent
  | EmptyBase64
  | EmptyKey
  | DecodeFailed b64_error
  | OpenFailed io_error
  | ReadFailed io_error
  | GenPathFailed io_error
  | CreateFailed io_error
  | SaveFailed io_error
  | WriteFailed io_error
  | UploadFailed io_error
  | FileNotExists string
  | DeleteFailed io_error

text \<open>The error kinds of the specification, and the kind of each error of the code.\<close>

datatype error_kind =
    InvalidInput | DecodeError | BackendError | NotFound
  | InvalidConfig | UnsupportedType | ConstructionError

fun kind :: "error \<Rightarrow> error_kind" where
  "kind ErrInvalidConfig = InvalidConfig"
| "kind ErrUnsupportedType = UnsupportedType"
| "kind ConfigIncomplete = ConstructionError"
| "kind (ClientFailed _) = ConstructionError"
| "kind (BucketFailed _) = ConstructionError"
| "kind (ParseFailed _) = ConstructionError"
| "kind (ConnectFailed _) = ConstructionError"
| "kind NilFileHeader = InvalidInput"
| "kind EmptyFileName = InvalidInput"
| "kind EmptyContent = InvalidInput"
| "kind EmptyBase64 = InvalidInput"
| "kind EmptyKey = InvalidInput"
| "kind (DecodeFailed _) = DecodeError"
| "kind (FileNotExists _) = NotFound"
| "kind _ = BackendError"

section \<open>The world outside the program\<close>

text \<open>
  The local file system is an association list from paths to nodes, the buckets of
  the three providers an association list from bucket and object key to content.
  Paths are compared as strings; the working directory \<^verbatim>\<open>.\<close> and the root \<^verbatim>\<open>/\<close> always
  exist.
\<close>

datatype node = File bytes | Dir

type_synonym filesystem = "(string \<times> node) list"
type_synonym buckets = "((string \<times> string) \<times> bytes) list"

text \<open>The calls that leave the program: file system, vendor SDKs, URL parsing.\<close>

datatype call =
    os_Stat string
  | os_Remove string
  | os_MkdirAll string
  | os_WriteFile string bytes
  | os_Create string
  | File_Write string bytes
  | storage_GetZone string string
  | FormUploader_Put string string bytes
  | BucketManager_Delete string string
  | oss_New string string string
  | Client_Bucket string
  | Bucket_PutObject string string bytes
  | Bucket_DeleteObject string string
  | url_Parse string
  | Bucket_Head string
  | Object_Put string string bytes
  | Object_Delete string string

text \<open>
  \<open>clock\<close> and \<open>uuids\<close> are the successive results of \<^verbatim>\<open>time.Now()\<close> and
  \<^verbatim>\<open>uuid.New().String()\<close>; \<open>ticks\<close> and \<open>draws\<close> count the readings made. \<open>faults\<close>
  makes the n-th call fail for a reason outside the model (permissions, a full disk,
  the network, a vendor's answer). \<open>trace\<close> records every call with its outcome,
  oldest first.
\<close>

record world =
  files :: filesystem
  objects :: buckets
  clock :: "nat \<Rightarrow> Time"
  uuids :: "nat \<Rightarrow> string"
  faults :: "nat \<Rightarrow> io_error option"
  ticks :: nat
  draws :: nat
  trace :: "(call \<times> io_error option) list"

definition Now :: "world \<Rightarrow> Time \<times> world" where
  "Now w = (clock w (ticks w), w\<lparr>ticks := Suc (ticks w)\<rparr>)"

definition uuid_New :: "world \<Rightarrow> string \<times> world" where
  "uuid_New w = (uuids w (draws w), w\<lparr>draws := Suc (draws w)\<rparr>)"

subsection \<open>What a call does when nothing outside the model fails\<close>

definition put :: "'k \<Rightarrow> 'v \<Rightarrow> ('k \<times> 'v) list \<Rightarrow> ('k \<times> 'v) list" where
  "put k v kvs = (k, v) # filter (\<lambda>e. fst e \<noteq> k) kvs"

definition del :: "'k \<Rightarrow> ('k \<times> 'v) list \<Rightarrow> ('k \<times> 'v) list" where
  "del k kvs = filter (\<lambda>e. fst e \<noteq> k) kvs"

text \<open>The directories above a path, outermost first; \<^verbatim>\<open>.\<close> and \<^verbatim>\<open>/\<close> are left out.\<close>

definition parents :: "string \<Rightarrow> string list" where
  "parents p = map (\<lambda>i. take i p) (filter (\<lambda>i. 0 < i \<and> p ! i = sep) [0..<length p])"

definition dir_of :: "string \<Rightarrow> string" where
  "dir_of p = (if parents p = [] then (if is_rooted p then [sep] else ''.'') else last (parents p))"

definition is_dir :: "filesystem \<Rightarrow> string \<Rightarrow> bool" where
  "is_dir fs p = (p = ''.'' \<or> p = [sep] \<or> map_of fs p = Some Dir)"

definition is_file :: "filesystem \<Rightarrow> string \<Rightarrow> bool" where
  "is_file fs p = (case map_of fs p of Some (File _) \<Rightarrow> True | _ \<Rightarrow> False)"

definition exists_path :: "filesystem \<Rightarrow> string \<Rightarrow> bool" where
  "exists_path fs p = (p = ''.'' \<or> p = [sep] \<or> map_of fs p \<noteq> None)"

definition has_children :: "filesystem \<Rightarrow> string \<Rightarrow> bool" where
  "has_children fs p = (\<exists>e \<in> set fs. fst e \<noteq> p \<and> dir_of (fst e) = p)"

definition mkdir :: "string \<Rightarrow> filesystem \<Rightarrow> filesystem" where
  "mkdir p fs = (if exists_path fs p then fs else put p Dir fs)"

text \<open>Creating or truncating the file at a path and writing the content.\<close>

definition write_file :: "string \<Rightarrow> bytes \<Rightarrow> filesystem \<Rightarrow> io_error + filesystem" where
  "write_file p b fs =
     (if \<not> exists_path fs (dir_of p) then Inl NotExist
      else if \<not> is_dir fs (dir_of p) \<or> is_dir fs p then Inl IoFailure
      else Inr (put p (File b) fs))"

definition fs_call :: "call \<Rightarrow> filesystem \<Rightarrow> io_error + filesystem" where
  "fs_call c fs =
     (case c of
        os_Stat p \<Rightarrow> if exists_path fs p then Inr fs else Inl NotExist
      | os_Remove p \<Rightarrow>
          if map_of fs p = None then (if exists_path fs p then Inl IoFailure else Inl NotExist)
          else if has_children fs p then Inl IoFailure
          else Inr (del p fs)
      | os_MkdirAll p \<Rightarrow>
          if \<exists>d \<in> set (parents p @ [p]). is_file fs d then Inl IoFailure
          else Inr (foldr mkdir (rev (parents p @ [p])) fs)
      | os_WriteFile p b \<Rightarrow> write_file p b fs
      | os_Create p \<Rightarrow> write_file p [] fs
      | File_Write p b \<Rightarrow> if is_file fs p then Inr (put p (File b) fs) else Inl IoFailure
      | _ \<Rightarrow> Inr fs)"

definition bucket_call :: "call \<Rightarrow> buckets \<Rightarrow> buckets" where
  "bucket_call c os =
     (case c of
        FormUploader_Put b k d \<Rightarrow> put (b, k) d os
      | BucketManager_Delete b k \<Rightarrow> del (b, k) os
      | Bucket_PutObject b k d \<Rightarrow> put (b, k) d os
      | Bucket_DeleteObject b k \<Rightarrow> del (b, k) os
      | Object_Put b k d \<Rightarrow> put (b, k) d os
      | Object_Delete b k \<Rightarrow> del (b, k) os
      | _ \<Rightarrow> os)"

text \<open>
  Issuing a call: the outcome is the injected fault if there is one for this position
  of the trace, else what the file system answers; a failed call changes nothing but
  the trace. The result is Go's \<^verbatim>\<open>err\<close>: \<open>None\<close> for \<^verbatim>\<open>nil\<close>.
\<close>

definition outcome :: "call \<Rightarrow> world \<Rightarrow> io_error option" where
  "outcome c w =
     (case faults w (length (trace w)) of
        Some e \<Rightarrow> Some e
      | None \<Rightarrow> (case fs_call c (files w) of Inl e \<Rightarrow> Some e | Inr _ \<Rightarrow> None))"

definition invoke :: "call \<Rightarrow> world \<Rightarrow> io_error option \<times> world" where
  "invoke c w =
     (case outcome c w of
        Some e \<Rightarrow> (Some e, w\<lparr>trace := trace w @ [(c, Some e)]\<rparr>)
      | None \<Rightarrow>
          (None, w\<lparr>files := (case fs_call c (files w) of Inr fs \<Rightarrow> fs | Inl _ \<Rightarrow> files w),
                   objects := bucket_call c (objects w),
                   trace := trace w @ [(c, None)]\<rparr>))"

section \<open>Standard base64 decoding (encoding/base64, StdEncoding)\<close>

text \<open>
  The alphabet of the standard encoding; \<^verbatim>\<open>decodeMap\<close> maps each of its characters to
  its position and every other byte to \<^verbatim>\<open>0xff\<close>, here \<open>None\<close>.
\<close>

definition encodeStd :: string where
  "encodeStd = ''ABCDEFGHIJKLMNOPQRSTUVWXYZabcdefghijklmnopqrstuvwxyz0123456789+/''"

fun index_of :: "char \<Rightarrow> string \<Rightarrow> nat \<Rightarrow> nat option" where
  "index_of c [] i = None"
| "index_of c (x # xs) i = (if c = x then Some i else index_of c xs (Suc i))"

definition decodeMap :: "char \<Rightarrow> nat option" where
  "decodeMap c = index_of c encodeStd 0"

definition is_newline :: "char \<Rightarrow> bool" where
  "is_newline c = (c = CHR 0x0A \<or> c = CHR 0x0D)"

definition padChar :: char where
  "padChar = CHR ''=''"

text \<open>
  The end of \<^verbatim>\<open>decodeQuantum\<close>: the four 6-bit values (missing ones are zero) make a
  24-bit value, of which a quantum of \<open>dlen\<close> values yields the first \<open>dlen - 1\<close> bytes.
\<close>

definition quantum_bytes :: "nat list \<Rightarrow> bytes" where
  "quantum_bytes dbuf =
     (let val = foldl (\<lambda>a d. a * 64 + d) 0 (dbuf @ replicate (4 - length dbuf) 0)
      in take (length dbuf - 1) [of_nat (val div 65536), of_nat (val div 256), of_nat val])"

text \<open>
  The padding branch of \<^verbatim>\<open>decodeQuantum\<close>, entered at a pad character at offset \<open>si\<close>
  with \<open>dbuf\<close> read so far and \<open>cs\<close> left: after two values a second pad character
  must follow; newlines are skipped; anything after the padding is an error.
\<close>

definition padding :: "nat list \<Rightarrow> nat \<Rightarrow> string \<Rightarrow> b64_error + bytes" where
  "padding dbuf si cs =
     (if length dbuf < 2 then Inl (CorruptInput si)
      else
        let cs1 = dropWhile is_newline cs;
            si1 = Suc si + (length cs - length cs1)
        in if length dbuf = 2 \<and> cs1 = [] then Inl (CorruptInput si1)
           else if length dbuf = 2 \<and> hd cs1 \<noteq> padChar then Inl (CorruptInput (si1 - 1))
           else
             let cs2 = (if length dbuf = 2 then tl cs1 else cs);
                 si2 = (if length dbuf = 2 then Suc si1 else Suc si);
                 cs3 = dropWhile is_newline cs2;
                 si3 = si2 + (length cs2 - length cs3)
             in if cs3 \<noteq> [] then Inl (CorruptInput si3) else Inr (quantum_bytes dbuf))"

text \<open>
  \<^verbatim>\<open>Decode\<close> with \<^verbatim>\<open>decodeQuantum\<close>, byte by byte: \<open>dbuf\<close> holds the values of the quantum
  being read and \<open>si\<close> is the offset of the next byte. Newlines are skipped anywhere;
  input that ends inside a quantum is corrupt. (The 8-byte and 4-byte fast paths of
  \<^verbatim>\<open>Decode\<close> compute the same result on input of the alphabet and fall back to
  \<^verbatim>\<open>decodeQuantum\<close> otherwise.)
\<close>

fun decode :: "nat list \<Rightarrow> nat \<Rightarrow> string \<Rightarrow> b64_error + bytes" where
  "decode dbuf si [] = (if dbuf = [] then Inr [] else Inl (CorruptInput (si - length dbuf)))"
| "decode dbuf si (c # cs) =
     (case decodeMap c of
        Some v \<Rightarrow>
          if length dbuf = 3 then
            (case decode [] (Suc si) cs of
               Inl e \<Rightarrow> Inl e
             | Inr out \<Rightarrow> Inr (quantum_bytes (dbuf @ [v]) @ out))
          else decode (dbuf @ [v]) (Suc si) cs
      | None \<Rightarrow>
          if is_newline c then decode dbuf (Suc si) cs
          else if c \<noteq> padChar then Inl (CorruptInput si)
          else padding dbuf si cs)"

definition DecodeString :: "string \<Rightarrow> b64_error + bytes" where
  "DecodeString s = decode [] 0 s"

section \<open>The local adapter (package local)\<close>

text \<open>
  A \<^verbatim>\<open>*multipart.FileHeader\<close>: its file name and what \<^verbatim>\<open>Open()\<close> returns, an error or a
  reader that delivers bytes and then ends (\<open>None\<close>) or fails. A nil pointer is
  \<open>None :: FileHeader option\<close>.
\<close>

datatype reader = Reader bytes "io_error option"

record FileHeader =
  Filename :: string
  Open :: "io_error + reader"

record LocalUploader =
  basePath :: string

definition local_New :: "LocalConfig \<Rightarrow> LocalUploader" where
  "local_New cfg =
     \<lparr>basePath = (if BasePath cfg = '''' then ''storage/uploads'' else BasePath cfg)\<rparr>"

definition generateFilePath ::
  "LocalUploader \<Rightarrow> string \<Rightarrow> world \<Rightarrow> (io_error + string) \<times> world" where
  "generateFilePath u originalName w =
     (case Now w of (t1, w1) \<Rightarrow>
        let dateDir = Format_date t1;
            storageDir = Join [basePath u, dateDir]
        in case invoke (os_MkdirAll storageDir) w1 of
             (Some e, w2) \<Rightarrow> (Inl e, w2)
           | (None, w2) \<Rightarrow>
               let ext = Ext originalName;
                   baseName = TrimSuffix (Base originalName) ext
               in case Now w2 of (t2, w3) \<Rightarrow>
                    let uniqueName = baseName @ ''_'' @ fmt_d (sint (unixNano t2)) @ ext
                    in (Inr (Join [storageDir, uniqueName]), w3))"

text \<open>
  \<^verbatim>\<open>io.Copy(dst, src)\<close>: what the reader delivers is written to the destination; a
  failed write or a failed read is the error of the copy.
\<close>

definition io_Copy :: "string \<Rightarrow> reader \<Rightarrow> world \<Rightarrow> io_error option \<times> world" where
  "io_Copy dst src w =
     (case src of Reader b rerr \<Rightarrow>
        (case invoke (File_Write dst b) w of
           (Some e, w1) \<Rightarrow> (Some e, w1)
         | (None, w1) \<Rightarrow> (rerr, w1)))"

definition Local_UploadFile ::
  "LocalUploader \<Rightarrow> FileHeader option \<Rightarrow> world \<Rightarrow> (error + string) \<times> world" where
  "Local_UploadFile u file w =
     (case file of
        None \<Rightarrow> (Inl NilFileHeader, w)
      | Some h \<Rightarrow>
          (case Open h of
             Inl e \<Rightarrow> (Inl (OpenFailed e), w)
           | Inr src \<Rightarrow>
               (case generateFilePath u (Filename h) w of
                  (Inl e, w1) \<Rightarrow> (Inl (GenPathFailed e), w1)
                | (Inr filePath, w1) \<Rightarrow>
                    (case invoke (os_Create filePath) w1 of
                       (Some e, w2) \<Rightarrow> (Inl (CreateFailed e), w2)
                     | (None, w2) \<Rightarrow>
                         (case io_Copy filePath src w2 of
                            (Some e, w3) \<Rightarrow> (Inl (SaveFailed e), w3)
                          | (None, w3) \<Rightarrow>
                              (case Rel (basePath u) filePath of
                                 Inl _ \<Rightarrow> (Inr filePath, w3)
                               | Inr relPath \<Rightarrow> (Inr relPath, w3)))))))"

definition Local_UploadBinary ::
  "LocalUploader \<Rightarrow> string \<Rightarrow> bytes \<Rightarrow> world \<Rightarrow> (error + string) \<times> world" where
  "Local_UploadBinary u filename content w =
     (if length content = 0 then (Inl EmptyContent, w)
      else case generateFilePath u filename w of
             (Inl e, w1) \<Rightarrow> (Inl (GenPathFailed e), w1)
           | (Inr filePath, w1) \<Rightarrow>
               (case invoke (os_WriteFile filePath content) w1 of
                  (Some e, w2) \<Rightarrow> (Inl (WriteFailed e), w2)
                | (None, w2) \<Rightarrow>
                    (case Rel (basePath u) filePath of
                       Inl _ \<Rightarrow> (Inr filePath, w2)
                     | Inr relPath \<Rightarrow> (Inr relPath, w2))))"

definition Local_UploadBase64 ::
  "LocalUploader \<Rightarrow> string \<Rightarrow> string \<Rightarrow> world \<Rightarrow> (error + string) \<times> world" where
  "Local_UploadBase64 u filename base64Str w =
     (if base64Str = '''' then (Inl EmptyBase64, w)
      else case DecodeString base64Str of
             Inl e \<Rightarrow> (Inl (DecodeFailed e), w)
           | Inr data \<Rightarrow> Local_UploadBinary u filename data w)"

text \<open>
  \<^verbatim>\<open>Delete\<close> returns Go's \<^verbatim>\<open>error\<close>: \<open>None\<close> is \<^verbatim>\<open>nil\<close>. The result of \<^verbatim>\<open>os.Stat\<close> is
  looked at with \<^verbatim>\<open>os.IsNotExist\<close> only.
\<close>

definition Local_Delete :: "LocalUploader \<Rightarrow> string \<Rightarrow> world \<Rightarrow> error option \<times> world" where
  "Local_Delete u filePath w =
     (let fullPath = Join [basePath u, filePath]
      in case invoke (os_Stat fullPath) w of
           (Some NotExist, w1) \<Rightarrow> (Some (FileNotExists fullPath), w1)
         | (_, w1) \<Rightarrow>
             (case invoke (os_Remove fullPath) w1 of
                (Some e, w2) \<Rightarrow> (Some (DeleteFailed e), w2)
              | (None, w2) \<Rightarrow> (None, w2)))"

section \<open>The qiniu adapter (package qiniu)\<close>

text \<open>
  The zone that \<^verbatim>\<open>storage.GetZone\<close> reports for an access key and a bucket; the field
  \<open>cfg_Region\<close> of the adapter is \<open>None\<close> for the nil pointer that \<^verbatim>\<open>GetZone\<close> returns
  with an error.
\<close>

datatype region = ZoneOf string string

record qiniuUploader =
  mac :: "string \<times> string"
  cfg_Region :: "region option"
  bucket :: string
  domain :: string

definition qiniu_New :: "QiniuConfig \<Rightarrow> world \<Rightarrow> (error + qiniuUploader) \<times> world" where
  "qiniu_New cfg w =
     (if Q_AccessKey cfg = '''' \<or> Q_SecretKey cfg = '''' \<or> Q_Bucket cfg = '''' then
        (Inl ConfigIncomplete, w)
      else case invoke (storage_GetZone (Q_AccessKey cfg) (Q_Bucket cfg)) w of
             (err, w1) \<Rightarrow>
               (Inr \<lparr>mac = (Q_AccessKey cfg, Q_SecretKey cfg),
                     cfg_Region = (case err of
                                     None \<Rightarrow> Some (ZoneOf (Q_AccessKey cfg) (Q_Bucket cfg))
                                   | Some _ \<Rightarrow> None),
                     bucket = Q_Bucket cfg,
                     domain = Q_Domain cfg\<rparr>, w1))"

text \<open>
  The upload token is computed from the policy and the keys without any call; the
  model keeps the scope of its policy, the bucket.
\<close>

definition getUpToken :: "qiniuUploader \<Rightarrow> string" where
  "getUpToken h = bucket h"

text \<open>\<^verbatim>\<open>uuid.New().String()\<close> has 36 characters, of which the key takes the first 8.\<close>

definition generateUniqueKey :: "string \<Rightarrow> world \<Rightarrow> string \<times> world" where
  "generateUniqueKey originalName w =
     (let ext = Ext originalName
      in case Now w of (t, w1) \<Rightarrow>
           (case uuid_New w1 of (u, w2) \<Rightarrow>
              let timestamp = sint (unixNano t);
                  randomStr = take 8 u
              in (fmt_d timestamp @ ''_'' @ randomStr @ ext, w2)))"

definition qiniu_getFileURL :: "qiniuUploader \<Rightarrow> string \<Rightarrow> string" where
  "qiniu_getFileURL h key = ''https://'' @ domain h @ ''/'' @ key"

text \<open>
  \<^verbatim>\<open>formUploader.Put\<close> fills \<^verbatim>\<open>ret.Key\<close> from the answer of the service, which names the
  key the object was stored under: the key that was sent.
\<close>

definition Qiniu_UploadBase64 ::
  "qiniuUploader \<Rightarrow> string \<Rightarrow> string \<Rightarrow> world \<Rightarrow> (error + string) \<times> world" where
  "Qiniu_UploadBase64 h fileName base64Code w =
     (if fileName = '''' then (Inl EmptyFileName, w)
      else if base64Code = '''' then (Inl EmptyBase64, w)
      else case generateUniqueKey fileName w of (key, w1) \<Rightarrow>
             (case DecodeString base64Code of
                Inl e \<Rightarrow> (Inl (DecodeFailed e), w1)
              | Inr data \<Rightarrow>
                  (let upToken = getUpToken h
                   in case invoke (FormUploader_Put upToken key data) w1 of
                        (Some e, w2) \<Rightarrow> (Inl (UploadFailed e), w2)
                      | (None, w2) \<Rightarrow> (Inr (qiniu_getFileURL h key), w2))))"

definition Qiniu_UploadBinary ::
  "qiniuUploader \<Rightarrow> string \<Rightarrow> bytes \<Rightarrow> world \<Rightarrow> (error + string) \<times> world" where
  "Qiniu_UploadBinary h fileName content w =
     (if fileName = '''' then (Inl EmptyFileName, w)
      else if length content = 0 then (Inl EmptyContent, w)
      else case generateUniqueKey fileName w of (key, w1) \<Rightarrow>
             (let upToken = getUpToken h
              in case invoke (FormUploader_Put upToken key content) w1 of
                   (Some e, w2) \<Rightarrow> (Inl (UploadFailed e), w2)
                 | (None, w2) \<Rightarrow> (Inr (qiniu_getFileURL h key), w2)))"

definition Qiniu_Delete :: "qiniuUploader \<Rightarrow> string \<Rightarrow> world \<Rightarrow> error option \<times> world" where
  "Qiniu_Delete h filePath w =
     (if filePath = '''' then (Some EmptyKey, w)
      else case invoke (BucketManager_Delete (bucket h) filePath) w of
             (Some e, w1) \<Rightarrow> (Some (DeleteFailed e), w1)
           | (None, w1) \<Rightarrow> (None, w1))"

definition Qiniu_UploadFile ::
  "qiniuUploader \<Rightarrow> FileHeader option \<Rightarrow> world \<Rightarrow> (error + string) \<times> world" where
  "Qiniu_UploadFile h fileHeader w =
     (case fileHeader of
        None \<Rightarrow> (Inl NilFileHeader, w)
      | Some fh \<Rightarrow>
          (case Open fh of
             Inl e \<Rightarrow> (Inl (OpenFailed e), w)
           | Inr (Reader fileBytes rerr) \<Rightarrow>
               (case rerr of
                  Some e \<Rightarrow> (Inl (ReadFailed e), w)
                | None \<Rightarrow> Qiniu_UploadBinary h (Filename fh) fileBytes w)))"

section \<open>The aliyun and tencent adapters (packages aliyun, tencent)\<close>

text \<open>
  \<open>generateObjectKey\<close> has the same body in both packages and does not use its
  receiver.
\<close>

definition generateObjectKey :: "string \<Rightarrow> world \<Rightarrow> string \<times> world" where
  "generateObjectKey originalName w =
     (let ext = Ext originalName;
          baseName = TrimSuffix (Base originalName) ext
      in case Now w of (t1, w1) \<Rightarrow>
           let datePath = Format_date t1
           in case Now w1 of (t2, w2) \<Rightarrow>
                let uniqueName = baseName @ ''_'' @ fmt_d (sint (unixNano t2)) @ ext
                in (Join [datePath, uniqueName], w2))"

text \<open>
  Sending a stream in a request: the SDK reads the stream while it sends. A stream
  that fails fails the request, and nothing is stored.
\<close>

definition send :: "(bytes \<Rightarrow> call) \<Rightarrow> reader \<Rightarrow> world \<Rightarrow> io_error option \<times> world" where
  "send request src w =
     (case src of Reader b rerr \<Rightarrow>
        (case rerr of
           None \<Rightarrow> invoke (request b) w
         | Some e \<Rightarrow> (Some e, w\<lparr>trace := trace w @ [(request b, Some e)]\<rparr>)))"

text \<open>
  The client and the bucket handle of the adapter are determined by the
  configuration it keeps; \<open>ali_endpoint\<close> is the field \<^verbatim>\<open>endpoint\<close>.
\<close>

record AliUploader =
  ali_config :: AliyunConfig
  ali_endpoint :: string

definition aliyun_New :: "AliyunConfig \<Rightarrow> world \<Rightarrow> (error + AliUploader) \<times> world" where
  "aliyun_New cfg w =
     (if A_Endpoint cfg = '''' \<or> A_AccessKeyID cfg = '''' \<or> A_AccessKeySecret cfg = ''''
         \<or> A_BucketName cfg = '''' then (Inl ConfigIncomplete, w)
      else case invoke (oss_New (A_Endpoint cfg) (A_AccessKeyID cfg) (A_AccessKeySecret cfg)) w of
             (Some e, w1) \<Rightarrow> (Inl (ClientFailed e), w1)
           | (None, w1) \<Rightarrow>
               (case invoke (Client_Bucket (A_BucketName cfg)) w1 of
                  (Some e, w2) \<Rightarrow> (Inl (BucketFailed e), w2)
                | (None, w2) \<Rightarrow>
                    (let endpoint = (if A_Domain cfg \<noteq> '''' then ''https://'' @ A_Domain cfg
                                     else ''https://'' @ A_BucketName cfg @ ''.'' @ A_Endpoint cfg)
                     in (Inr \<lparr>ali_config = cfg, ali_endpoint = endpoint\<rparr>, w2))))"

definition ali_getFileURL :: "AliUploader \<Rightarrow> string \<Rightarrow> string" where
  "ali_getFileURL u objectKey = ali_endpoint u @ ''/'' @ objectKey"

definition Ali_UploadFile ::
  "AliUploader \<Rightarrow> FileHeader option \<Rightarrow> world \<Rightarrow> (error + string) \<times> world" where
  "Ali_UploadFile u file w =
     (case file of
        None \<Rightarrow> (Inl NilFileHeader, w)
      | Some h \<Rightarrow>
          (case Open h of
             Inl e \<Rightarrow> (Inl (OpenFailed e), w)
           | Inr src \<Rightarrow>
               (case generateObjectKey (Filename h) w of (objectKey, w1) \<Rightarrow>
                  (case send (Bucket_PutObject (A_BucketName (ali_config u)) objectKey) src w1 of
                     (Some e, w2) \<Rightarrow> (Inl (UploadFailed e), w2)
                   | (None, w2) \<Rightarrow> (Inr (ali_getFileURL u objectKey), w2)))))"

definition Ali_UploadBinary ::
  "AliUploader \<Rightarrow> string \<Rightarrow> bytes \<Rightarrow> world \<Rightarrow> (error + string) \<times> world" where
  "Ali_UploadBinary u filename content w =
     (if length content = 0 then (Inl EmptyContent, w)
      else case generateObjectKey filename w of (objectKey, w1) \<Rightarrow>
             (case invoke (Bucket_PutObject (A_BucketName (ali_config u)) objectKey content) w1 of
                (Some e, w2) \<Rightarrow> (Inl (UploadFailed e), w2)
              | (None, w2) \<Rightarrow> (Inr (ali_getFileURL u objectKey), w2)))"

definition Ali_UploadBase64 ::
  "AliUploader \<Rightarrow> string \<Rightarrow> string \<Rightarrow> world \<Rightarrow> (error + string) \<times> world" where
  "Ali_UploadBase64 u filename base64Str w =
     (if base64Str = '''' then (Inl EmptyBase64, w)
      else case DecodeString base64Str of
             Inl e \<Rightarrow> (Inl (DecodeFailed e), w)
           | Inr data \<Rightarrow> Ali_UploadBinary u filename data w)"

definition Ali_Delete :: "AliUploader \<Rightarrow> string \<Rightarrow> world \<Rightarrow> error option \<times> world" where
  "Ali_Delete u objectKey w =
     (if objectKey = '''' then (Some EmptyKey, w)
      else case invoke (Bucket_DeleteObject (A_BucketName (ali_config u)) objectKey) w of
             (Some e, w1) \<Rightarrow> (Some (DeleteFailed e), w1)
           | (None, w1) \<Rightarrow> (None, w1))"

text \<open>
  The client of the tencent adapter is determined by the bucket URL, which is
  computed from the configuration the adapter keeps.
\<close>

record TencentUploader =
  tc_config :: TencentConfig

definition bucketURL :: "TencentConfig \<Rightarrow> string" where
  "bucketURL cfg = ''https://'' @ T_BucketName cfg @ ''.cos.'' @ T_Region cfg @ ''.myqcloud.com''"

definition tencent_New :: "TencentConfig \<Rightarrow> world \<Rightarrow> (error + TencentUploader) \<times> world" where
  "tencent_New cfg w =
     (if T_SecretID cfg = '''' \<or> T_SecretKey cfg = '''' \<or> T_BucketName cfg = ''''
         \<or> T_Region cfg = '''' then (Inl ConfigIncomplete, w)
      else case invoke (url_Parse (bucketURL cfg)) w of
             (Some e, w1) \<Rightarrow> (Inl (ParseFailed e), w1)
           | (None, w1) \<Rightarrow>
               (case invoke (Bucket_Head (bucketURL cfg)) w1 of
                  (Some e, w2) \<Rightarrow> (Inl (ConnectFailed e), w2)
                | (None, w2) \<Rightarrow> (Inr \<lparr>tc_config = cfg\<rparr>, w2)))"

definition tencent_getFileURL :: "TencentUploader \<Rightarrow> string \<Rightarrow> string" where
  "tencent_getFileURL u objectKey =
     (if T_Domain (tc_config u) \<noteq> '''' then ''https://'' @ T_Domain (tc_config u) @ ''/'' @ objectKey
      else bucketURL (tc_config u) @ ''/'' @ objectKey)"

definition Tencent_UploadFile ::
  "TencentUploader \<Rightarrow> FileHeader option \<Rightarrow> world \<Rightarrow> (error + string) \<times> world" where
  "Tencent_UploadFile u file w =
     (case file of
        None \<Rightarrow> (Inl NilFileHeader, w)
      | Some h \<Rightarrow>
          (case Open h of
             Inl e \<Rightarrow> (Inl (OpenFailed e), w)
           | Inr src \<Rightarrow>
               (case generateObjectKey (Filename h) w of (objectKey, w1) \<Rightarrow>
                  (case send (Object_Put (bucketURL (tc_config u)) objectKey) src w1 of
                     (Some e, w2) \<Rightarrow> (Inl (UploadFailed e), w2)
                   | (None, w2) \<Rightarrow> (Inr (tencent_getFileURL u objectKey), w2)))))"

definition Tencent_UploadBinary ::
  "TencentUploader \<Rightarrow> string \<Rightarrow> bytes \<Rightarrow> world \<Rightarrow> (error + string) \<times> world" where
  "Tencent_UploadBinary u filename content w =
     (if length content = 0 then (Inl EmptyContent, w)
      else case generateObjectKey filename w of (objectKey, w1) \<Rightarrow>
             (case invoke (Object_Put (bucketURL (tc_config u)) objectKey content) w1 of
                (Some e, w2) \<Rightarrow> (Inl (UploadFailed e), w2)
              | (None, w2) \<Rightarrow> (Inr (tencent_getFileURL u objectKey), w2)))"

definition Tencent_UploadBase64 ::
  "TencentUploader \<Rightarrow> string \<Rightarrow> string \<Rightarrow> world \<Rightarrow> (error + string) \<times> world" where
  "Tencent_UploadBase64 u filename base64Str w =
     (if base64Str = '''' then (Inl EmptyBase64, w)
      else case DecodeString base64Str of
             Inl e \<Rightarrow> (Inl (DecodeFailed e), w)
           | Inr data \<Rightarrow> Tencent_UploadBinary u filename data w)"

definition Tencent_Delete :: "TencentUploader \<Rightarrow> string \<Rightarrow> world \<Rightarrow> error option \<times> world" where
  "Tencent_Delete u objectKey w =
     (if objectKey = '''' then (Some EmptyKey, w)
      else case invoke (Object_Delete (bucketURL (tc_config u)) objectKey) w of
             (Some e, w1) \<Rightarrow> (Some (DeleteFailed e), w1)
           | (None, w1) \<Rightarrow> (None, w1))"

section \<open>The interface and the factory (package uploader)\<close>

text \<open>
  A value of the interface \<^verbatim>\<open>Uploader\<close> is one of the four adapters; a method call
  dispatches on it.
\<close>

datatype Uploader =
    ULocal LocalUploader
  | UQiniu qiniuUploader
  | UAliyun AliUploader
  | UTencent TencentUploader

definition UploadFile ::
  "Uploader \<Rightarrow> FileHeader option \<Rightarrow> world \<Rightarrow> (error + string) \<times> world" where
  "UploadFile up file w =
     (case up of
        ULocal u \<Rightarrow> Local_UploadFile u file w
      | UQiniu h \<Rightarrow> Qiniu_UploadFile h file w
      | UAliyun u \<Rightarrow> Ali_UploadFile u file w
      | UTencent u \<Rightarrow> Tencent_UploadFile u file w)"

definition UploadBinary ::
  "Uploader \<Rightarrow> string \<Rightarrow> bytes \<Rightarrow> world \<Rightarrow> (error + string) \<times> world" where
  "UploadBinary up filename content w =
     (case up of
        ULocal u \<Rightarrow> Local_UploadBinary u filename content w
      | UQiniu h \<Rightarrow> Qiniu_UploadBinary h filename content w
      | UAliyun u \<Rightarrow> Ali_UploadBinary u filename content w
      | UTencent u \<Rightarrow> Tencent_UploadBinary u filename content w)"

definition UploadBase64 ::
  "Uploader \<Rightarrow> string \<Rightarrow> string \<Rightarrow> world \<Rightarrow> (error + string) \<times> world" where
  "UploadBase64 up filename base64Str w =
     (case up of
        ULocal u \<Rightarrow> Local_UploadBase64 u filename base64Str w
      | UQiniu h \<Rightarrow> Qiniu_UploadBase64 h filename base64Str w
      | UAliyun u \<Rightarrow> Ali_UploadBase64 u filename base64Str w
      | UTencent u \<Rightarrow> Tencent_UploadBase64 u filename base64Str w)"

definition Delete :: "Uploader \<Rightarrow> string \<Rightarrow> world \<Rightarrow> error option \<times> world" where
  "Delete up filepath w =
     (case up of
        ULocal u \<Rightarrow> Local_Delete u filepath w
      | UQiniu h \<Rightarrow> Qiniu_Delete h filepath w
      | UAliyun u \<Rightarrow> Ali_Delete u filepath w
      | UTencent u \<Rightarrow> Tencent_Delete u filepath w)"

text \<open>The constants of type \<^verbatim>\<open>UploadType\<close>, a string type.\<close>

definition Local :: string where "Local = ''local''"
definition Qiniu :: string where "Qiniu = ''qiniu''"
definition Aliyun :: string where "Aliyun = ''aliyun''"
definition Tencent :: string where "Tencent = ''tencent''"

text \<open>A constructor's pair of adapter and error, returned as the pair of the factory.\<close>

definition returning ::
  "('u \<Rightarrow> Uploader) \<Rightarrow> (error + 'u) \<times> world \<Rightarrow> (error + Uploader) \<times> world" where
  "returning iface r = (case r of (Inl e, w) \<Rightarrow> (Inl e, w) | (Inr u, w) \<Rightarrow> (Inr (iface u), w))"

definition NewUploader :: "string \<Rightarrow> any \<Rightarrow> world \<Rightarrow> (error + Uploader) \<times> world" where
  "NewUploader t cfg w =
     (if t = Local then
        (case cfg of
           LocalCfg localCfg \<Rightarrow> (Inr (ULocal (local_New localCfg)), w)
         | _ \<Rightarrow> (Inl ErrInvalidConfig, w))
      else if t = Qiniu then
        (case cfg of
           QiniuCfg qiniuCfg \<Rightarrow> returning UQiniu (qiniu_New qiniuCfg w)
         | _ \<Rightarrow> (Inl ErrInvalidConfig, w))
      else if t = Aliyun then
        (case cfg of
           AliyunCfg aliCfg \<Rightarrow> returning UAliyun (aliyun_New aliCfg w)
         | _ \<Rightarrow> (Inl ErrInvalidConfig, w))
      else if t = Tencent then
        (case cfg of
           TencentCfg txCfg \<Rightarrow> returning UTencent (tencent_New txCfg w)
         | _ \<Rightarrow> (Inl ErrInvalidConfig, w))
      else (Inl ErrUnsupportedType, w))"

section \<open>Vocabulary of the properties\<close>

text \<open>The backend kind whose configuration struct a dynamic value is, if any.\<close>

definition variant :: "any \<Rightarrow> string option" where
  "variant cfg =
     (case cfg of
        LocalCfg _ \<Rightarrow> Some Local
      | QiniuCfg _ \<Rightarrow> Some Qiniu
      | AliyunCfg _ \<Rightarrow> Some Aliyun
      | TencentCfg _ \<Rightarrow> Some Tencent
      | _ \<Rightarrow> None)"

text \<open>
  A world for examples: an empty file system, empty buckets, a clock that stands at
  2025/07/01 with Unix time 1000 ns, and no faults.
\<close>

definition noon :: Time where
  "noon = \<lparr>year = 2025, month = 7, day = 1, unixNano = 1000\<rparr>"

definition quiet :: world where
  "quiet = \<lparr>files = [], objects = [], clock = (\<lambda>_. noon),
            uuids = (\<lambda>_. ''123e4567-e89b-12d3-a456-426614174000''),
            faults = (\<lambda>_. None), ticks = 0, draws = 0, trace = []\<rparr>"

subsection \<open>Paths and names\<close>

text \<open>
  A string without a separator is \<open>plain\<close>; a path element that \<open>Clean\<close> keeps as it is,
  is \<open>normal\<close>; the decimal strings that \<open>fmt_d\<close> and \<open>appendInt\<close> print are \<open>numeric\<close>.
\<close>

definition plain :: "string \<Rightarrow> bool" where
  "plain e = (sep \<notin> set e)"

definition normal :: "string \<Rightarrow> bool" where
  "normal e = (plain e \<and> e \<noteq> [] \<and> e \<noteq> ''.'' \<and> e \<noteq> ''..'')"

definition numeric :: "string \<Rightarrow> bool" where
  "numeric s = (s \<noteq> [] \<and> set s \<subseteq> set ''-0123456789'')"

text \<open>
  The output buffer of \<open>Clean\<close> after the whole path, and the buffers that can arise:
  elements are plain, not empty and not \<^verbatim>\<open>.\<close>, and \<^verbatim>\<open>..\<close> stands only at the bottom of the
  buffer of a path that is not rooted.
\<close>

definition stack :: "string \<Rightarrow> string list" where
  "stack p = foldl (clean_elem (is_rooted p)) [] (split_sep p)"

fun valid :: "bool \<Rightarrow> string list \<Rightarrow> bool" where
  "valid r [] = True"
| "valid r (e # out) =
     (valid r out \<and> plain e \<and> e \<noteq> [] \<and> e \<noteq> ''.''
      \<and> (e = ''..'' \<longrightarrow> \<not> r \<and> (out = [] \<or> hd out = ''..'')))"

text \<open>
  The base name of the adapters, \<^verbatim>\<open>strings.TrimSuffix(filepath.Base(name), ext)\<close>, and
  the element that the generated name contributes to a path: base name, underscore,
  timestamp and extension. For a name made of separators only the base name is
  \<^verbatim>\<open>/\<close>, which \<open>Join\<close> merges into the separator before it.
\<close>

definition stem :: "string \<Rightarrow> string" where
  "stem name = TrimSuffix (Base name) (Ext name)"

definition unique :: "string \<Rightarrow> string \<Rightarrow> string" where
  "unique name nanos = (if Base name = [sep] then [] else stem name) @ ''_'' @ nanos @ Ext name"

subsection \<open>Keys, locators and stored content\<close>

text \<open>
  The key that the local, aliyun and tencent adapters generate for a file name in a
  world: the date of the next clock reading, a separator, and the unique name with
  the timestamp of the reading after it. The key of the qiniu adapter: timestamp,
  underscore, eight characters of the next UUID, extension.
\<close>

definition dated_key :: "world \<Rightarrow> string \<Rightarrow> string" where
  "dated_key w name =
     Format_date (clock w (ticks w)) @ sep #
       unique name (fmt_d (sint (unixNano (clock w (Suc (ticks w))))))"

definition qiniu_key :: "world \<Rightarrow> string \<Rightarrow> string" where
  "qiniu_key w name =
     fmt_d (sint (unixNano (clock w (ticks w)))) @ ''_'' @ take 8 (uuids w (draws w)) @ Ext name"

definition key_of :: "Uploader \<Rightarrow> world \<Rightarrow> string \<Rightarrow> string" where
  "key_of up w name = (case up of UQiniu _ \<Rightarrow> qiniu_key w name | _ \<Rightarrow> dated_key w name)"

text \<open>
  The locator an upload returns for a key (the key itself for the local adapter, a URL
  for the others), and the content an adapter's backend holds under a key.
\<close>

definition locator_of :: "Uploader \<Rightarrow> string \<Rightarrow> string" where
  "locator_of up key =
     (case up of
        ULocal u \<Rightarrow> key
      | UQiniu h \<Rightarrow> qiniu_getFileURL h key
      | UAliyun u \<Rightarrow> ali_getFileURL u key
      | UTencent u \<Rightarrow> tencent_getFileURL u key)"

definition content_at :: "Uploader \<Rightarrow> world \<Rightarrow> string \<Rightarrow> bytes option" where
  "content_at up w key =
     (case up of
        ULocal u \<Rightarrow>
          (case map_of (files w) (Join [basePath u, key]) of
             Some (File b) \<Rightarrow> Some b
           | _ \<Rightarrow> None)
      | UQiniu h \<Rightarrow> map_of (objects w) (bucket h, key)
      | UAliyun u \<Rightarrow> map_of (objects w) (A_BucketName (ali_config u), key)
      | UTencent u \<Rightarrow> map_of (objects w) (bucketURL (tc_config u), key))"

definition is_qiniu :: "Uploader \<Rightarrow> bool" where
  "is_qiniu up = (case up of UQiniu _ \<Rightarrow> True | _ \<Rightarrow> False)"

definition is_local :: "Uploader \<Rightarrow> bool" where
  "is_local up = (case up of ULocal _ \<Rightarrow> True | _ \<Rightarrow> False)"

subsection \<open>Calls and their errors\<close>

text \<open>
  The calls an operation made, from the worlds before and after it; whether all of
  them succeeded; a world in which no fault is injected.
\<close>

definition new_events :: "world \<Rightarrow> world \<Rightarrow> (call \<times> io_error option) list" where
  "new_events w w' = drop (length (trace w)) (trace w')"

definition calls_ok :: "world \<Rightarrow> world \<Rightarrow> bool" where
  "calls_ok w w' = list_all (\<lambda>ev. snd ev = None) (new_events w w')"

definition healthy :: "world \<Rightarrow> bool" where
  "healthy w = (\<forall>n. faults w n = None)"

text \<open>
  The two places where the code drops the error of a call on purpose: \<^verbatim>\<open>qiniu.New\<close>
  assigns the error of \<^verbatim>\<open>storage.GetZone\<close> to the blank identifier, and \<^verbatim>\<open>Delete\<close> of the
  local adapter asks of the error of \<^verbatim>\<open>os.Stat\<close> only whether the file does not exist.
\<close>

definition exempt :: "call \<times> io_error option \<Rightarrow> bool" where
  "exempt ev =
     (case ev of
        (storage_GetZone _ _, _) \<Rightarrow> True
      | (os_Stat _, Some e) \<Rightarrow> e \<noteq> NotExist
      | _ \<Rightarrow> False)"

text \<open>
  The error of a call that an error of the repository wraps or, for \<open>FileNotExists\<close>,
  reports; and the error an upload returns, \<open>None\<close> for \<^verbatim>\<open>nil\<close>.
\<close>

fun cause :: "error \<Rightarrow> io_error option" where
  "cause (ClientFailed e) = Some e"
| "cause (BucketFailed e) = Some e"
| "cause (ParseFailed e) = Some e"
| "cause (ConnectFailed e) = Some e"
| "cause (OpenFailed e) = Some e"
| "cause (ReadFailed e) = Some e"
| "cause (GenPathFailed e) = Some e"
| "cause (CreateFailed e) = Some e"
| "cause (SaveFailed e) = Some e"
| "cause (WriteFailed e) = Some e"
| "cause (UploadFailed e) = Some e"
| "cause (DeleteFailed e) = Some e"
| "cause (FileNotExists _) = Some NotExist"
| "cause _ = None"

definition err_of :: "error + 'a \<Rightarrow> error option" where
  "err_of r = (case r of Inl e \<Rightarrow> Some e | Inr _ \<Rightarrow> None)"

text \<open>
  A sequence of calls whose errors reach the caller: the first failed call that is not
  exempt is the last call of the sequence, and the operation returns an error with
  the error of that call as its cause.
\<close>

fun propagated :: "(call \<times> io_error option) list \<Rightarrow> error option \<Rightarrow> bool" where
  "propagated [] err = True"
| "propagated (ev # evs) err =
     (if snd ev \<noteq> None \<and> \<not> exempt ev
      then (case err of Some x \<Rightarrow> cause x = snd ev | None \<Rightarrow> False) \<and> evs = []
      else propagated evs err)"

subsection \<open>Standard base64 encoding\<close>

text \<open>
  \<^verbatim>\<open>base64.StdEncoding.EncodeToString\<close>, which the properties use to speak of the
  base64 string of a byte sequence: three bytes make four characters of the
  alphabet, and a rest of one or two bytes is padded.
\<close>

definition enc :: "nat \<Rightarrow> char" where
  "enc i = encodeStd ! (i mod 64)"

fun EncodeToString :: "bytes \<Rightarrow> string" where
  "EncodeToString (a # b # c # rest) =
     (let val = unat a * 65536 + unat b * 256 + unat c
      in [enc (val div 262144), enc (val div 4096), enc (val div 64), enc val]
           @ EncodeToString rest)"
| "EncodeToString [a, b] =
     (let val = unat a * 65536 + unat b * 256
      in [enc (val div 262144), enc (val div 4096), enc (val div 64), padChar])"
| "EncodeToString [a] =
     (let val = unat a * 65536
      in [enc (val div 262144), enc (val div 4096), padChar, padChar])"
| "EncodeToString [] = []"

section \<open>Path elements, cleaning and relative paths\<close>

lemma split_sep_nonempty [simp]: "split_sep p \<noteq> []"
  by (induction p) auto

lemma split_sep_plain: "plain c \<Longrightarrow> split_sep c = [c]"
  by (induction c) (auto simp: plain_def)

lemma split_sep_snoc: "plain c \<Longrightarrow> split_sep (p @ sep # c) = split_sep p @ [c]"
  by (induction p) (auto simp: split_sep_plain)

lemma split_sep_all_plain: "e \<in> set (split_sep p) \<Longrightarrow> plain e"
proof (induction p arbitrary: e)
  case Nil
  then show ?case by (simp add: plain_def)
next
  case (Cons c p)
  show ?case
  proof (cases "c = sep")
    case True
    with Cons show ?thesis by (auto simp: plain_def)
  next
    case False
    obtain x xs where xs: "split_sep p = x # xs" by (cases "split_sep p") auto
    with Cons.IH have "plain x" "\<forall>y \<in> set xs. plain y" by auto
    with Cons.prems False xs show ?thesis by (auto simp: plain_def)
  qed
qed

lemma split_sep_join:
  "xs \<noteq> [] \<Longrightarrow> \<forall>x \<in> set xs. plain x \<Longrightarrow> split_sep (join_sep xs) = xs"
proof (induction xs rule: join_sep.induct)
  case 1
  then show ?case by simp
next
  case (2 x)
  then show ?case by (simp add: split_sep_plain)
next
  case (3 x y ys)
  have "split_sep (x @ sep # join_sep (y # ys)) = x # split_sep (join_sep (y # ys))"
    using 3(3) by (induction x) (auto simp: plain_def)
  with 3 show ?case by simp
qed

lemma join_sep_snoc: "xs \<noteq> [] \<Longrightarrow> join_sep (xs @ [c]) = join_sep xs @ sep # c"
  by (induction xs rule: join_sep.induct) auto

lemma valid_clean_elem: "valid r out \<Longrightarrow> plain e \<Longrightarrow> valid r (clean_elem r out e)"
  by (cases out) (auto simp: clean_elem_def)

lemma valid_foldl:
  "valid r out \<Longrightarrow> \<forall>e \<in> set es. plain e \<Longrightarrow> valid r (foldl (clean_elem r) out es)"
  by (induction es arbitrary: out) (auto simp: valid_clean_elem)

lemma clean_elem_valid_push: "valid r (e # out) \<Longrightarrow> clean_elem r out e = e # out"
  by (cases out) (auto simp: clean_elem_def)

lemma foldl_rev_valid: "valid r out \<Longrightarrow> foldl (clean_elem r) [] (rev out) = out"
proof (induction out)
  case Nil
  then show ?case by simp
next
  case (Cons e out)
  from Cons.prems have "valid r out" by simp
  with Cons.IH have "foldl (clean_elem r) [] (rev out) = out" by simp
  with Cons.prems show ?case by (simp only: rev.simps foldl_append foldl.simps clean_elem_valid_push)
qed

lemma render_nonempty [simp]: "render r out \<noteq> []"
  by (simp add: render_def Let_def)

lemma join_sep_eq_Nil: "\<forall>x \<in> set xs. x \<noteq> [] \<Longrightarrow> join_sep xs = [] \<longleftrightarrow> xs = []"
  by (induction xs rule: join_sep.induct) auto

lemma valid_elems: "valid r out \<Longrightarrow> e \<in> set out \<Longrightarrow> plain e \<and> e \<noteq> []"
  by (induction out) auto

lemma hd_join_sep: "xs \<noteq> [] \<Longrightarrow> hd xs \<noteq> [] \<Longrightarrow> hd (join_sep xs) = hd (hd xs)"
  by (induction xs rule: join_sep.induct) auto

lemma is_rooted_render: "valid r out \<Longrightarrow> is_rooted (render r out) = r"
proof (cases out rule: rev_cases)
  case Nil
  then show ?thesis by (simp add: render_def is_rooted_def sep_def)
next
  case (snoc ys y)
  assume v: "valid r out"
  with snoc have y: "plain y" "y \<noteq> []" using valid_elems[of r out y] by auto
  then have "hd y \<noteq> sep" by (cases y) (auto simp: plain_def)
  moreover have "hd (join_sep (rev out)) = hd y" using snoc y by (simp add: hd_join_sep)
  moreover have "join_sep (rev out) \<noteq> []" using snoc y by (cases ys rule: rev_cases) (auto simp: )
  ultimately show ?thesis by (auto simp: render_def is_rooted_def)
qed

lemma stack_render:
  "valid r out \<Longrightarrow> foldl (clean_elem r) [] (split_sep (render r out)) = out"
proof (cases "out = []")
  case True
  then show ?thesis by (simp add: render_def clean_elem_def sep_def)
next
  case False
  assume v: "valid r out"
  then have pl: "\<forall>x \<in> set (rev out). plain x" using valid_elems by auto
  have ne: "join_sep (rev out) \<noteq> []"
    using False v valid_elems join_sep_eq_Nil[of "rev out"] by auto
  have sp: "split_sep (join_sep (rev out)) = rev out"
    using False pl by (simp add: split_sep_join)
  show ?thesis
    using ne sp foldl_rev_valid[OF v] by (auto simp: render_def clean_elem_def)
qed

lemma valid_stack: "valid (is_rooted p) (stack p)"
  unfolding stack_def by (rule valid_foldl) (auto simp: split_sep_all_plain)

lemma Clean_render: "p \<noteq> [] \<Longrightarrow> Clean p = render (is_rooted p) (stack p)"
  by (simp add: Clean_def stack_def Let_def)

lemma Clean_idem: "Clean (Clean p) = Clean p"
proof (cases "p = []")
  case True
  then show ?thesis by (simp add: Clean_def render_def is_rooted_def clean_elem_def sep_def)
next
  case False
  let ?r = "is_rooted p"
  have v: "valid ?r (stack p)" by (rule valid_stack)
  have "Clean (render ?r (stack p)) = render ?r (stack p)"
    using is_rooted_render[OF v] stack_render[OF v] by (simp add: Clean_def Let_def)
  with False show ?thesis by (simp add: Clean_render)
qed

lemma Clean_snoc:
  assumes "p \<noteq> []" "normal c"
  shows "Clean (p @ sep # c) = render (is_rooted p) (c # stack p)"
proof -
  have "is_rooted (p @ sep # c) = is_rooted p" using assms by (simp add: is_rooted_def)
  moreover have "split_sep (p @ sep # c) = split_sep p @ [c]"
    using assms by (simp add: split_sep_snoc normal_def)
  moreover have "clean_elem r out c = c # out" for r out
    using assms by (simp add: clean_elem_def normal_def)
  ultimately show ?thesis by (simp add: Clean_def stack_def Let_def)
qed

lemma digit_range: "d < 10 \<Longrightarrow> digit d \<in> set ''0123456789''"
  unfolding digit_def by (rule nth_mem) simp

lemma numeric_digits: "numeric (digits n)"
proof (induction n rule: digits.induct)
  case (1 n)
  show ?case
  proof (cases "n < 10")
    case True
    then show ?thesis using digit_range[of n] by (subst digits.simps) (simp add: numeric_def)
  next
    case False
    with 1 have "numeric (digits (n div 10))" by simp
    moreover have "n mod 10 < 10" by simp
    ultimately show ?thesis using False digit_range[of "n mod 10"]
      by (subst digits.simps) (simp add: numeric_def)
  qed
qed

lemma numeric_minus_Cons: "numeric s \<Longrightarrow> numeric (CHR ''-'' # s)"
  by (simp add: numeric_def)

lemma numeric_fmt_d: "numeric (fmt_d i)"
  unfolding fmt_d_def by (simp add: numeric_minus_Cons numeric_digits)

lemma numeric_char: "numeric s \<Longrightarrow> c \<in> set s \<Longrightarrow> c \<noteq> sep \<and> c \<noteq> CHR ''.''"
  by (auto simp: numeric_def sep_def)

lemma numeric_plain: "numeric s \<Longrightarrow> plain s"
  using numeric_char by (auto simp: plain_def)

lemma numeric_normal: "numeric s \<Longrightarrow> normal s"
proof -
  assume n: "numeric s"
  then have "s \<noteq> []" by (simp add: numeric_def)
  then have "hd s \<in> set s" by simp
  with n have "hd s \<noteq> CHR ''.''" using numeric_char by blast
  then have "s \<noteq> ''.''" "s \<noteq> ''..''" by auto
  with n \<open>s \<noteq> []\<close> show ?thesis by (simp add: normal_def numeric_plain)
qed

lemma numeric_zero_pad: "numeric b \<Longrightarrow> numeric (replicate k CHR ''0'' @ b)"
  unfolding numeric_def by (cases k) auto

lemma numeric_appendInt: "numeric (appendInt x width)"
proof (cases "x < 0")
  case True
  then show ?thesis
    unfolding appendInt_def Let_def
    using numeric_minus_Cons[OF numeric_zero_pad[OF numeric_digits]] by simp
next
  case False
  then show ?thesis
    unfolding appendInt_def Let_def
    using numeric_zero_pad[OF numeric_digits] by simp
qed

lemma Format_date_shape:
  "\<exists>y m d. Format_date t = y @ sep # m @ sep # d \<and> numeric y \<and> numeric m \<and> numeric d"
proof (intro exI conjI)
  show "Format_date t = appendInt (year t) 4 @ sep # appendInt (month t) 2 @ sep # appendInt (day t) 2"
    by (simp add: Format_date_def sep_def)
qed (rule numeric_appendInt)+

lemma ext_scan_shape:
  "ext_scan r acc = [] \<or>
   (\<exists>k. k < length (takeWhile (\<lambda>c. c \<noteq> sep) r) \<and> ext_scan r acc = rev (take (Suc k) r) @ acc)"
proof (induction r arbitrary: acc)
  case Nil
  then show ?case by simp
next
  case (Cons c cs)
  show ?case
  proof (cases "c = sep \<or> c = CHR ''.''")
    case True
    then show ?thesis by auto
  next
    case False
    from Cons.IH[of "c # acc"] show ?thesis
    proof
      assume "ext_scan cs (c # acc) = []"
      with False show ?thesis by simp
    next
      assume "\<exists>k. k < length (takeWhile (\<lambda>c. c \<noteq> sep) cs) \<and>
                  ext_scan cs (c # acc) = rev (take (Suc k) cs) @ c # acc"
      then obtain k where k: "k < length (takeWhile (\<lambda>c. c \<noteq> sep) cs)"
        and e: "ext_scan cs (c # acc) = rev (take (Suc k) cs) @ c # acc" by blast
      from False k e have "Suc k < length (takeWhile (\<lambda>c. c \<noteq> sep) (c # cs)) \<and>
          ext_scan (c # cs) acc = rev (take (Suc (Suc k)) (c # cs)) @ acc" by simp
      then show ?thesis by blast
    qed
  qed
qed

lemma Ext_cases:
  obtains (none) "Ext name = []"
  | (some) k where "k < length (takeWhile (\<lambda>c. c \<noteq> sep) (rev name))"
      "Ext name = rev (take (Suc k) (takeWhile (\<lambda>c. c \<noteq> sep) (rev name)))"
proof -
  let ?tw = "takeWhile (\<lambda>c. c \<noteq> sep) (rev name)"
  from ext_scan_shape[of "rev name" "[]"] show ?thesis
  proof
    assume "ext_scan (rev name) [] = []"
    then show ?thesis using none by (simp add: Ext_def)
  next
    assume "\<exists>k. k < length ?tw \<and> ext_scan (rev name) [] = rev (take (Suc k) (rev name)) @ []"
    then obtain k where k: "k < length ?tw"
      and e: "ext_scan (rev name) [] = rev (take (Suc k) (rev name))" by auto
    have "rev name = ?tw @ dropWhile (\<lambda>c. c \<noteq> sep) (rev name)" by simp
    then have "take (Suc k) (rev name) = take (Suc k) (?tw @ dropWhile (\<lambda>c. c \<noteq> sep) (rev name))"
      by simp
    also have "\<dots> = take (Suc k) ?tw" using k by (simp del: takeWhile_dropWhile_id)
    finally show ?thesis using some k e by (simp add: Ext_def)
  qed
qed

lemma plain_takeWhile: "plain (takeWhile (\<lambda>c. c \<noteq> sep) r)"
  by (auto simp: plain_def dest: set_takeWhileD)

lemma plain_rev: "plain (rev s) = plain s"
  by (simp add: plain_def)

lemma plain_take: "plain s \<Longrightarrow> plain (take n s)"
  by (auto simp: plain_def dest: in_set_takeD)

lemma plain_append: "plain (a @ b) = (plain a \<and> plain b)"
  by (auto simp: plain_def)

lemma plain_Ext: "plain (Ext name)"
  by (cases name rule: Ext_cases) (simp_all add: plain_def plain_rev plain_take plain_takeWhile[unfolded plain_def] del: rev_take, (auto simp: plain_def dest!: in_set_takeD set_takeWhileD)?)

lemma Base_cases:
  obtains (dot) "name = []" "Base name = ''.''"
  | (root) "name \<noteq> []" "Base name = [sep]" "takeWhile (\<lambda>c. c \<noteq> sep) (rev name) = []"
  | (elem) "name \<noteq> []" "Base name \<noteq> []" "plain (Base name)"
      "takeWhile (\<lambda>c. c \<noteq> sep) (rev name) \<noteq> [] \<longrightarrow>
         Base name = rev (takeWhile (\<lambda>c. c \<noteq> sep) (rev name))"
proof (cases "name = []")
  case True
  then show ?thesis using dot by (simp add: Base_def)
next
  case False
  let ?stripped = "dropWhile (\<lambda>c. c = sep) (rev name)"
  let ?elem = "rev (takeWhile (\<lambda>c. c \<noteq> sep) ?stripped)"
  show ?thesis
  proof (cases "?elem = []")
    case True
    then have "?stripped = []"
      by (metis (mono_tags, lifting) dropWhile_eq_Nil_conv hd_dropWhile list.set_sel(1) rev_is_Nil_conv takeWhile_eq_Nil_iff)
    then have "\<forall>c \<in> set (rev name). c = sep" by (simp add: dropWhile_eq_Nil_conv)
    with False have "takeWhile (\<lambda>c. c \<noteq> sep) (rev name) = []"
      by (cases "rev name") auto
    with False True show ?thesis using root by (simp add: Base_def Let_def)
  next
    case nonempty: False
    have b: "Base name = ?elem" using False nonempty by (simp add: Base_def Let_def)
    have p: "plain ?elem" by (simp add: plain_rev plain_takeWhile)
    have "takeWhile (\<lambda>c. c \<noteq> sep) (rev name) \<noteq> [] \<longrightarrow>
         ?elem = rev (takeWhile (\<lambda>c. c \<noteq> sep) (rev name))"
      by (cases "rev name") auto
    with b p nonempty False show ?thesis using elem by simp
  qed
qed

lemma stem_Ext: "stem name @ Ext name = Base name"
proof (cases name rule: Ext_cases)
  case none
  then show ?thesis by (simp add: stem_def TrimSuffix_def HasSuffix_def)
next
  case (some k)
  let ?tw = "takeWhile (\<lambda>c. c \<noteq> sep) (rev name)"
  from some(1) have tw: "?tw \<noteq> []" by auto
  have b: "Base name = rev ?tw"
    using tw by (cases name rule: Base_cases) auto
  have e: "Ext name = drop (length ?tw - Suc k) (rev ?tw)"
    using some by (simp add: rev_take)
  have l: "length (Ext name) = Suc k" using some by simp
  have "HasSuffix (Base name) (Ext name)"
    unfolding HasSuffix_def using b e l some(1) by simp
  then show ?thesis
    by (simp add: stem_def TrimSuffix_def HasSuffix_def) (metis append_take_drop_id)
qed

lemma Ext_root: "Base name = [sep] \<Longrightarrow> Ext name = [] \<and> stem name = [sep]"
proof -
  assume b: "Base name = [sep]"
  have "plain (Ext name)" by (rule plain_Ext)
  moreover from stem_Ext[of name] b have "stem name @ Ext name = [sep]" by simp
  ultimately have "Ext name = []"
    by (cases "Ext name" rule: rev_cases) (auto simp: plain_def)
  with stem_Ext[of name] b show ?thesis by simp
qed

lemma normal_unique: "numeric n \<Longrightarrow> normal (unique name n)"
proof -
  assume n: "numeric n"
  have pe: "plain (Ext name)" by (rule plain_Ext)
  have ps: "Base name \<noteq> [sep] \<Longrightarrow> plain (stem name)"
  proof -
    assume "Base name \<noteq> [sep]"
    then have "plain (Base name)" by (cases name rule: Base_cases) (auto simp: plain_def sep_def)
    with stem_Ext[of name] show ?thesis by (metis plain_append)
  qed
  have u: "CHR ''_'' \<in> set (unique name n)" by (simp add: unique_def)
  then have "unique name n \<noteq> []" "unique name n \<noteq> ''.''" "unique name n \<noteq> ''..''"
    by auto
  moreover have "plain (unique name n)"
  proof -
    have "plain (c # s) = (c \<noteq> sep \<and> plain s)" "plain []" for c s
      by (auto simp: plain_def)
    then show ?thesis
      using pe ps numeric_plain[OF n] by (simp add: unique_def plain_append sep_def)
  qed
  ultimately show ?thesis by (simp add: normal_def)
qed

lemma uniqueName_eq:
  "stem name @ CHR ''_'' # n @ Ext name =
     (if Base name = [sep] then sep # unique name n else unique name n)"
  using Ext_root[of name] by (auto simp: unique_def)

lemma stack_snoc:
  assumes "p \<noteq> []" "normal c"
  shows "stack (p @ sep # c) = c # stack p" "is_rooted (p @ sep # c) = is_rooted p"
proof -
  show r: "is_rooted (p @ sep # c) = is_rooted p" using assms by (simp add: is_rooted_def)
  have "split_sep (p @ sep # c) = split_sep p @ [c]"
    using assms by (simp add: split_sep_snoc normal_def)
  moreover have "clean_elem r out c = c # out" for r out
    using assms by (simp add: clean_elem_def normal_def)
  ultimately show "stack (p @ sep # c) = c # stack p" using r by (simp add: stack_def)
qed

lemma stack_snoc_sep:
  assumes "p \<noteq> []"
  shows "stack (p @ [sep]) = stack p" "is_rooted (p @ [sep]) = is_rooted p"
proof -
  show r: "is_rooted (p @ [sep]) = is_rooted p" using assms by (simp add: is_rooted_def)
  have "split_sep (p @ sep # []) = split_sep p @ [[]]"
    by (rule split_sep_snoc) (simp add: plain_def)
  then show "stack (p @ [sep]) = stack p" using r by (simp add: stack_def clean_elem_def)
qed

lemma stack_plain: "normal c \<Longrightarrow> stack c = [c] \<and> \<not> is_rooted c"
  by (cases c) (auto simp: stack_def normal_def split_sep_plain clean_elem_def is_rooted_def plain_def)

lemma Clean_valid: "valid r out \<Longrightarrow> Clean (render r out) = render r out"
  using is_rooted_render[of r out] stack_render[of r out]
  by (simp add: Clean_def Let_def)

lemma stack_of_render: "valid r out \<Longrightarrow> stack (render r out) = out"
  using is_rooted_render[of r out] stack_render[of r out] by (simp add: stack_def)

lemma Format_date_stack:
  obtains y m d where "Format_date t = y @ sep # m @ sep # d"
    "normal y" "normal m" "normal d"
  using Format_date_shape[of t] numeric_normal by blast

text \<open>Joining a directory with a file name of the shape the adapters generate.\<close>

lemma Join_unique:
  assumes "dir \<noteq> []" "numeric n"
  shows "Join [dir, stem name @ ''_'' @ n @ Ext name] =
           render (is_rooted dir) (unique name n # stack dir)"
proof -
  have nu: "normal (unique name n)" using assms(2) by (rule normal_unique)
  show ?thesis
  proof (cases "Base name = [sep]")
    case True
    have "Join [dir, stem name @ ''_'' @ n @ Ext name] = Clean ((dir @ [sep]) @ sep # unique name n)"
      using assms(1) True by (simp add: uniqueName_eq)
    also have "\<dots> = render (is_rooted (dir @ [sep])) (unique name n # stack (dir @ [sep]))"
      by (rule Clean_snoc) (use nu in simp_all)
    finally show ?thesis using stack_snoc_sep[OF assms(1)] by simp
  next
    case False
    have "Join [dir, stem name @ ''_'' @ n @ Ext name] = Clean (dir @ sep # unique name n)"
      using assms(1) False by (simp add: uniqueName_eq)
    then show ?thesis using Clean_snoc[OF assms(1) nu] by simp
  qed
qed

lemma Format_date_nonempty [simp]: "Format_date t \<noteq> []"
  by (simp add: Format_date_def)

lemma stack_Format_date:
  "\<exists>y m d. Format_date t = y @ sep # m @ sep # d \<and> normal y \<and> normal m \<and> normal d
     \<and> stack (Format_date t) = [d, m, y] \<and> \<not> is_rooted (Format_date t)"
proof -
  obtain y m d where f: "Format_date t = y @ sep # m @ sep # d"
    and n: "normal y" "normal m" "normal d" by (rule Format_date_stack)
  have y: "stack y = [y]" "\<not> is_rooted y" "y \<noteq> []" using n(1) stack_plain by (auto simp: normal_def)
  have ym: "stack (y @ sep # m) = [m, y]" "\<not> is_rooted (y @ sep # m)" "y @ sep # m \<noteq> []"
    using stack_snoc[OF y(3) n(2)] y by simp_all
  have "stack ((y @ sep # m) @ sep # d) = [d, m, y]" "\<not> is_rooted ((y @ sep # m) @ sep # d)"
    using stack_snoc[OF ym(3) n(3)] ym by simp_all
  with f n show ?thesis by simp
qed

text \<open>The object key of the aliyun and tencent adapters.\<close>

lemma generateObjectKey_eq:
  "generateObjectKey name w =
     (Format_date (clock w (ticks w)) @ sep #
        unique name (fmt_d (sint (unixNano (clock w (Suc (ticks w)))))),
      w\<lparr>ticks := Suc (Suc (ticks w))\<rparr>)"
proof -
  let ?t1 = "clock w (ticks w)" and ?n = "fmt_d (sint (unixNano (clock w (Suc (ticks w)))))"
  obtain y m d where f: "Format_date ?t1 = y @ sep # m @ sep # d"
    and s: "stack (Format_date ?t1) = [d, m, y]" "\<not> is_rooted (Format_date ?t1)"
    and n: "normal y" "normal m" "normal d"
    using stack_Format_date[of ?t1] by blast
  have "Join [Format_date ?t1, stem name @ ''_'' @ ?n @ Ext name] =
          render False [unique name ?n, d, m, y]"
    using Join_unique[of "Format_date ?t1" ?n name] s numeric_fmt_d by simp
  also have "\<dots> = Format_date ?t1 @ sep # unique name ?n"
    using f n by (simp add: render_def normal_def)
  finally show ?thesis
    by (simp add: generateObjectKey_def Now_def Let_def stem_def)
qed

lemma stack_under:
  assumes "b \<noteq> []" "xs \<noteq> []" "\<forall>x \<in> set xs. normal x"
  shows "stack (b @ sep # join_sep xs) = rev xs @ stack b \<and>
         is_rooted (b @ sep # join_sep xs) = is_rooted b"
  using assms(2,3)
proof (induction xs rule: rev_nonempty_induct)
  case (single x)
  then show ?case using stack_snoc[OF assms(1), of x] by simp
next
  case (snoc x xs)
  then have ih: "stack (b @ sep # join_sep xs) = rev xs @ stack b"
    "is_rooted (b @ sep # join_sep xs) = is_rooted b" by simp_all
  have ne: "b @ sep # join_sep xs \<noteq> []" by simp
  have nx: "normal x" using snoc.prems by simp
  have "b @ sep # join_sep (xs @ [x]) = (b @ sep # join_sep xs) @ sep # x"
    using snoc.hyps(1) by (simp add: join_sep_snoc)
  with stack_snoc[OF ne nx] ih show ?case by simp
qed

lemma valid_normal_push:
  "valid r out \<Longrightarrow> \<forall>x \<in> set xs. normal x \<Longrightarrow> valid r (xs @ out)"
  by (induction xs) (auto simp: normal_def)

lemma render_Cons:
  "valid r out \<Longrightarrow> x \<noteq> [] \<Longrightarrow>
   render r (x # out) = (if out = [] then (if r then sep # x else x) else render r out @ sep # x)"
proof -
  assume v: "valid r out" and x: "x \<noteq> []"
  show ?thesis
  proof (cases "out = []")
    case True
    with x show ?thesis by (simp add: render_def)
  next
    case False
    then have "join_sep (rev out) \<noteq> []"
      using v valid_elems join_sep_eq_Nil[of "rev out"] by auto
    with False show ?thesis by (simp add: render_def Let_def join_sep_snoc)
  qed
qed

lemma split_render:
  assumes "valid r out" "out \<noteq> []"
  shows "split_sep (render r out) = (if r then [[]] else []) @ rev out"
proof -
  have pl: "\<forall>x \<in> set (rev out). plain x" using assms(1) valid_elems by auto
  have ne: "join_sep (rev out) \<noteq> []"
    using assms valid_elems join_sep_eq_Nil[of "rev out"] by auto
  have "split_sep (join_sep (rev out)) = rev out" using assms(2) pl by (simp add: split_sep_join)
  with ne show ?thesis by (simp add: render_def)
qed

lemma elems_render:
  assumes "valid r out" "out \<noteq> []"
  shows "elems (render r out) = (if r then [[]] else []) @ rev out"
proof -
  have "hd out \<noteq> []" using assms valid_elems[of r out "hd out"] by simp
  then have "last (rev out) \<noteq> []" using assms(2) by (simp add: last_rev)
  then show ?thesis using split_render[OF assms] assms(2) by (simp add: elems_def)
qed

lemma strip_common_prefix: "strip_common (pre @ bs) (pre @ ts) = strip_common bs ts"
  by (induction pre) auto

lemma strip_common_Nil: "strip_common [] ts = ([], ts)"
  by (cases ts) auto

lemma render_inject_length:
  assumes "valid r out" "valid r out'" "render r out = render r out'"
  shows "out = out'"
  using assms stack_render by metis

text \<open>The relative path from a directory to a path that extends it by normal elements.\<close>

lemma Rel_under:
  assumes "b \<noteq> []" "xs \<noteq> []" "\<forall>x \<in> set xs. normal x"
  shows "Rel b (render (is_rooted b) (rev xs @ stack b)) = Inr (join_sep xs)"
proof -
  let ?r = "is_rooted b" and ?sb = "stack b"
  let ?targ = "render ?r (rev xs @ ?sb)"
  have vb: "valid ?r ?sb" by (rule valid_stack)
  have vt: "valid ?r (rev xs @ ?sb)" using vb assms(3) by (simp add: valid_normal_push)
  have cb: "Clean b = render ?r ?sb" using assms(1) by (rule Clean_render)
  have ct: "Clean ?targ = ?targ" using vt by (rule Clean_valid)
  have ne: "?targ \<noteq> render ?r ?sb"
  proof
    assume "?targ = render ?r ?sb"
    with vt vb have "rev xs @ ?sb = ?sb" by (rule render_inject_length)
    with assms(2) show False by simp
  qed
  have rt: "is_rooted ?targ = ?r" using vt by (rule is_rooted_render)
  have et: "elems ?targ = (if ?r then [[]] else []) @ rev ?sb @ xs"
    using elems_render[OF vt] assms(2) by simp
  define base where "base = (if render ?r ?sb = ''.'' then [] else render ?r ?sb)"
  have dot: "render ?r ?sb = ''.'' \<longleftrightarrow> (\<not> ?r \<and> ?sb = [])"
  proof
    assume d: "render ?r ?sb = ''.''"
    have "valid ?r []" by simp
    show "\<not> ?r \<and> ?sb = []"
    proof (cases ?r)
      case True
      with is_rooted_render[OF vb] d show ?thesis by (simp add: is_rooted_def sep_def)
    next
      case False
      have "render False [] = ''.''" by (simp add: render_def)
      with d False have "render ?r ?sb = render ?r []" by simp
      with vb have "?sb = []" using render_inject_length[of ?r ?sb "[]"] by simp
      with False show ?thesis by simp
    qed
  next
    assume "\<not> ?r \<and> ?sb = []"
    then show "render ?r ?sb = ''.''" by (simp add: render_def)
  qed
  have rb: "is_rooted base = ?r"
    using dot is_rooted_render[OF vb] by (auto simp: base_def is_rooted_def)
  have eb: "elems base = (if ?r then [[]] else []) @ rev ?sb"
  proof (cases "?sb = []")
    case True
    then show ?thesis using dot by (auto simp: base_def elems_def render_def)
  next
    case False
    with dot have "base = render ?r ?sb" by (simp add: base_def)
    with elems_render[OF vb False] show ?thesis by simp
  qed
  have sc: "strip_common (elems base) (elems ?targ) = ([], xs)"
    using eb et strip_common_prefix[of "(if ?r then [[]] else []) @ rev ?sb" "[]" xs]
    by (simp add: strip_common_Nil)
  show ?thesis
    unfolding Rel_def Let_def cb ct
    using ne rb rt sc by (simp add: base_def)
qed

lemma Clean_under:
  assumes "b \<noteq> []" "xs \<noteq> []" "\<forall>x \<in> set xs. normal x"
  shows "Clean (b @ sep # join_sep xs) = render (is_rooted b) (rev xs @ stack b)"
proof -
  have "Clean (b @ sep # join_sep xs) =
          render (is_rooted (b @ sep # join_sep xs)) (stack (b @ sep # join_sep xs))"
    by (rule Clean_render) simp
  with stack_under[OF assms] show ?thesis by simp
qed

declare Join.simps [simp del]

lemma Clean_stack: "Clean p = render (is_rooted p) (stack p)"
  by (cases "p = []") (simp_all add: Clean_render, simp add: Clean_def render_def is_rooted_def stack_def clean_elem_def)

lemma Rel_extend:
  assumes "xs \<noteq> []" "\<forall>x \<in> set xs. normal x"
  shows "Rel b (render (is_rooted b) (rev xs @ stack b)) = Inr (join_sep xs)"
proof (cases "b = []")
  case False
  then show ?thesis using assms by (rule Rel_under)
next
  case True
  have "Rel ''.'' (render (is_rooted ''.'') (rev xs @ stack ''.'')) = Inr (join_sep xs)"
    using assms by (intro Rel_under) simp_all
  moreover have "stack ''.'' = stack []" "is_rooted ''.'' = is_rooted []" "Clean ''.'' = Clean []"
    by (simp_all add: stack_def is_rooted_def clean_elem_def sep_def Clean_def render_def)
  ultimately show ?thesis using True by (simp add: Rel_def)
qed

lemma Clean_join_normal:
  assumes "xs \<noteq> []" "\<forall>x \<in> set xs. normal x"
  shows "Clean (join_sep xs) = join_sep xs"
    and "stack (join_sep xs) = rev xs" and "\<not> is_rooted (join_sep xs)"
proof -
  obtain x xs' where xs: "xs = x # xs'" using assms(1) by (cases xs) auto
  have nx: "normal x" and x: "x \<noteq> []" using assms(2) xs by (auto simp: normal_def)
  have s: "stack (join_sep xs) = rev xs \<and> \<not> is_rooted (join_sep xs)"
  proof (cases "xs' = []")
    case True
    with xs nx show ?thesis using stack_plain[of x] by simp
  next
    case False
    then obtain y ys where "xs' = y # ys" by (cases xs') auto
    then have "join_sep xs = x @ sep # join_sep xs'" using xs by simp
    with stack_under[OF x False, of ] assms(2) xs stack_plain[OF nx] show ?thesis by simp
  qed
  then show "stack (join_sep xs) = rev xs" "\<not> is_rooted (join_sep xs)" by simp_all
  have "valid False (rev xs)"
    using valid_normal_push[of False "[]" "rev xs"] assms(2) by simp
  moreover have "join_sep xs \<noteq> []"
    using assms join_sep_eq_Nil[of xs] by (auto simp: normal_def)
  ultimately show "Clean (join_sep xs) = join_sep xs"
    using s by (simp add: Clean_stack render_def)
qed

lemma Join_under:
  assumes "xs \<noteq> []" "\<forall>x \<in> set xs. normal x"
  shows "Join [b, join_sep xs] = render (is_rooted b) (rev xs @ stack b)"
proof (cases "b = []")
  case True
  have "join_sep xs \<noteq> []" using assms join_sep_eq_Nil[of xs] by (auto simp: normal_def)
  then have "Join [b, join_sep xs] = Clean (join_sep xs)" using True by (simp add: Join.simps)
  also have "\<dots> = render False (rev xs)"
    using Clean_join_normal[OF assms] by (simp add: Clean_stack)
  finally show ?thesis using True by (simp add: is_rooted_def stack_def clean_elem_def)
next
  case False
  then have "Join [b, join_sep xs] = Clean (b @ sep # join_sep xs)" by (simp add: Join.simps)
  with Clean_under[OF False assms] show ?thesis by simp
qed

lemma dated_key_elements:
  obtains y m d where
    "dated_key w name = join_sep [y, m, d, unique name (fmt_d (sint (unixNano (clock w (Suc (ticks w))))))]"
    "Format_date (clock w (ticks w)) = join_sep [y, m, d]"
    "normal y" "normal m" "normal d"
proof -
  obtain y m d where f: "Format_date (clock w (ticks w)) = y @ sep # m @ sep # d"
    and n: "normal y" "normal m" "normal d" by (rule Format_date_stack)
  with that[of y m d] show ?thesis by (simp add: dated_key_def)
qed

text \<open>
  The path of the local adapter is the base path joined with the dated key, and the
  dated key is that path relative to the base path.
\<close>

lemma local_paths:
  fixes b name :: string and w :: world
  defines "n \<equiv> fmt_d (sint (unixNano (clock w (Suc (ticks w)))))"
  shows "Join [Join [b, Format_date (clock w (ticks w))],
               TrimSuffix (Base name) (Ext name) @ ''_'' @ n @ Ext name]
           = Join [b, dated_key w name]"
    and "Rel b (Join [b, dated_key w name]) = Inr (dated_key w name)"
proof -
  obtain y m d where k: "dated_key w name = join_sep [y, m, d, unique name n]"
    and f: "Format_date (clock w (ticks w)) = join_sep [y, m, d]"
    and nm: "normal y" "normal m" "normal d"
    unfolding n_def by (rule dated_key_elements)
  have num: "numeric n" unfolding n_def by (rule numeric_fmt_d)
  have nu: "normal (unique name n)" using num by (rule normal_unique)
  let ?r = "is_rooted b"
  have dir: "Join [b, Format_date (clock w (ticks w))] = render ?r ([d, m, y] @ stack b)"
    using Join_under[of "[y, m, d]" b] nm f by simp
  have v: "valid ?r ([d, m, y] @ stack b)"
    using valid_normal_push[OF valid_stack, of "[d, m, y]" b] nm by simp
  have full: "Join [b, dated_key w name] = render ?r ([unique name n, d, m, y] @ stack b)"
    using Join_under[of "[y, m, d, unique name n]" b] nm nu k by simp
  have "Join [render ?r ([d, m, y] @ stack b), stem name @ ''_'' @ n @ Ext name]
          = render (is_rooted (render ?r ([d, m, y] @ stack b)))
              (unique name n # stack (render ?r ([d, m, y] @ stack b)))"
    by (rule Join_unique) (simp_all add: num)
  also have "\<dots> = render ?r (unique name n # [d, m, y] @ stack b)"
    using is_rooted_render[OF v] stack_of_render[OF v] by simp
  finally show "Join [Join [b, Format_date (clock w (ticks w))],
               TrimSuffix (Base name) (Ext name) @ ''_'' @ n @ Ext name]
           = Join [b, dated_key w name]"
    using dir full by (simp add: stem_def)
  show "Rel b (Join [b, dated_key w name]) = Inr (dated_key w name)"
    using Rel_extend[of "[y, m, d, unique name n]" b] nm nu full k by simp
qed

lemma join_sep_append:
  "xs \<noteq> [] \<Longrightarrow> ys \<noteq> [] \<Longrightarrow> join_sep (xs @ ys) = join_sep xs @ sep # join_sep ys"
  by (induction xs rule: join_sep.induct) (auto simp: neq_Nil_conv)

text \<open>A base path that is clean and neither \<^verbatim>\<open>.\<close> nor \<^verbatim>\<open>/\<close> is extended literally.\<close>

lemma Join_literal:
  assumes "Clean b = b" "b \<noteq> ''.''" "b \<noteq> [sep]"
  shows "Join [b, dated_key w name] = b @ sep # dated_key w name"
proof -
  obtain y m d where k: "dated_key w name = join_sep [y, m, d, unique name (fmt_d (sint (unixNano (clock w (Suc (ticks w))))))]"
    and nm: "normal y" "normal m" "normal d"
    by (rule dated_key_elements)
  let ?u = "unique name (fmt_d (sint (unixNano (clock w (Suc (ticks w))))))"
  have nu: "normal ?u" by (rule normal_unique) (rule numeric_fmt_d)
  let ?r = "is_rooted b"
  have b: "b = render ?r (stack b)" using assms(1) by (simp add: Clean_stack)
  have ne: "stack b \<noteq> []"
  proof
    assume "stack b = []"
    with b have "b = render ?r []" by simp
    with assms(2,3) show False by (cases ?r) (simp_all add: render_def)
  qed
  have v: "valid ?r (stack b)" by (rule valid_stack)
  have jn: "join_sep (rev (stack b)) \<noteq> []"
    using ne v valid_elems join_sep_eq_Nil[of "rev (stack b)"] by auto
  have "Join [b, dated_key w name] = render ?r (rev [y, m, d, ?u] @ stack b)"
    using Join_under[of "[y, m, d, ?u]" b] nm nu k by simp
  also have "\<dots> = render ?r (stack b) @ sep # join_sep [y, m, d, ?u]"
  proof -
    have "join_sep (rev (stack b) @ [y, m, d, ?u]) = join_sep (rev (stack b)) @ sep # join_sep [y, m, d, ?u]"
      using ne by (intro join_sep_append) simp_all
    moreover have "join_sep (rev (stack b) @ [y, m, d, ?u]) \<noteq> []"
      using calculation by simp
    ultimately show ?thesis using jn by (simp add: render_def)
  qed
  finally show ?thesis using b k by simp
qed

section \<open>Calls\<close>

lemma invoke_cases [case_names fail ok]:
  obtains e where "outcome c w = Some e"
      "invoke c w = (Some e, w\<lparr>trace := trace w @ [(c, Some e)]\<rparr>)"
  | fs where "outcome c w = None" "fs_call c (files w) = Inr fs"
      "invoke c w = (None, w\<lparr>files := fs, objects := bucket_call c (objects w),
                               trace := trace w @ [(c, None)]\<rparr>)"
proof (cases "outcome c w")
  case None
  then obtain fs where "fs_call c (files w) = Inr fs"
    by (cases "fs_call c (files w)") (auto simp: outcome_def split: option.splits)
  with None that(2) show ?thesis by (simp add: invoke_def)
next
  case (Some e)
  with that(1) show ?thesis by (simp add: invoke_def)
qed

lemma invoke_frame [simp]:
  "clock (snd (invoke c w)) = clock w" "uuids (snd (invoke c w)) = uuids w"
  "faults (snd (invoke c w)) = faults w" "ticks (snd (invoke c w)) = ticks w"
  "draws (snd (invoke c w)) = draws w"
  "trace (snd (invoke c w)) = trace w @ [(c, fst (invoke c w))]"
  by (cases c w rule: invoke_cases; simp)+

lemma invoke_failed [simp]:
  "fst (invoke c w) = Some e \<Longrightarrow> files (snd (invoke c w)) = files w"
  "fst (invoke c w) = Some e \<Longrightarrow> objects (snd (invoke c w)) = objects w"
  by (cases c w rule: invoke_cases; simp)+

lemma invoke_done:
  "fst (invoke c w) = None \<Longrightarrow> fs_call c (files w) = Inr (files (snd (invoke c w)))"
  "fst (invoke c w) = None \<Longrightarrow> objects (snd (invoke c w)) = bucket_call c (objects w)"
  by (cases c w rule: invoke_cases; simp)+

lemma invoke_outcome: "fst (invoke c w) = outcome c w"
  by (cases c w rule: invoke_cases) simp_all

lemma map_of_put [simp]: "map_of (put k v kvs) k = Some v"
  by (simp add: put_def)

lemma put_put [simp]: "put k v (put k v' kvs) = put k v kvs"
  by (simp add: put_def)

lemma Now_eq: "Now w = (clock w (ticks w), w\<lparr>ticks := Suc (ticks w)\<rparr>)"
  by (simp add: Now_def)

lemma created:
  "fst (invoke (os_Create p) w) = None \<Longrightarrow>
     files (snd (invoke (os_Create p) w)) = put p (File []) (files w)"
proof -
  assume "fst (invoke (os_Create p) w) = None"
  then have "write_file p [] (files w) = Inr (files (snd (invoke (os_Create p) w)))"
    using invoke_done(1)[of "os_Create p" w] by (simp add: fs_call_def)
  then show ?thesis by (simp add: write_file_def split: if_splits)
qed

lemma written:
  "fst (invoke (os_WriteFile p b) w) = None \<Longrightarrow>
     files (snd (invoke (os_WriteFile p b) w)) = put p (File b) (files w)"
proof -
  assume "fst (invoke (os_WriteFile p b) w) = None"
  then have "write_file p b (files w) = Inr (files (snd (invoke (os_WriteFile p b) w)))"
    using invoke_done(1)[of "os_WriteFile p b" w] by (simp add: fs_call_def)
  then show ?thesis by (simp add: write_file_def split: if_splits)
qed

lemma copied:
  "fst (invoke (File_Write p b) w) = None \<Longrightarrow>
     files (snd (invoke (File_Write p b) w)) = put p (File b) (files w)"
proof -
  assume "fst (invoke (File_Write p b) w) = None"
  then have "(if is_file (files w) p then Inr (put p (File b) (files w)) else Inl IoFailure)
               = Inr (files (snd (invoke (File_Write p b) w)))"
    using invoke_done(1)[of "File_Write p b" w] by (simp add: fs_call_def)
  then show ?thesis by (simp split: if_splits)
qed

section \<open>Key generation\<close>

lemma generateFilePath_eq:
  "generateFilePath u name w =
     (let r = invoke (os_MkdirAll (Join [basePath u, Format_date (clock w (ticks w))]))
                (w\<lparr>ticks := Suc (ticks w)\<rparr>)
      in case fst r of
           Some e \<Rightarrow> (Inl e, snd r)
         | None \<Rightarrow> (Inr (Join [basePath u, dated_key w name]),
                     (snd r)\<lparr>ticks := Suc (Suc (ticks w))\<rparr>))"
proof -
  let ?w1 = "w\<lparr>ticks := Suc (ticks w)\<rparr>"
  let ?r = "invoke (os_MkdirAll (Join [basePath u, Format_date (clock w (ticks w))])) ?w1"
  have c: "clock (snd ?r) = clock w" "ticks (snd ?r) = Suc (ticks w)" by simp_all
  show ?thesis
    unfolding generateFilePath_def Now_eq Let_def
    by (cases ?r; cases "fst ?r") (use c local_paths(1)[of "basePath u" w name] in \<open>auto simp: Let_def\<close>)
qed

lemma generateObjectKey_dated:
  "generateObjectKey name w = (dated_key w name, w\<lparr>ticks := Suc (Suc (ticks w))\<rparr>)"
  by (simp add: generateObjectKey_eq dated_key_def)

lemma generateUniqueKey_eq:
  "generateUniqueKey name w =
     (qiniu_key w name, w\<lparr>ticks := Suc (ticks w), draws := Suc (draws w)\<rparr>)"
  by (simp add: generateUniqueKey_def Now_eq uuid_New_def qiniu_key_def Let_def)

section \<open>Uploads\<close>

lemma Local_UploadBinary_stores:
  assumes "Local_UploadBinary u name content w = (Inr loc, w')"
  shows "loc = dated_key w name"
    "map_of (files w') (Join [basePath u, dated_key w name]) = Some (File content)"
  using assms
  unfolding Local_UploadBinary_def generateFilePath_eq Let_def
  by (auto simp: split_beta local_paths(2) written split: option.splits sum.splits if_splits)

lemma Local_UploadFile_stores:
  assumes "Local_UploadFile u (Some h) w = (Inr loc, w')"
  shows "loc = dated_key w (Filename h)"
    "\<exists>b. Open h = Inr (Reader b None) \<and>
         map_of (files w') (Join [basePath u, dated_key w (Filename h)]) = Some (File b)"
  using assms
  unfolding Local_UploadFile_def generateFilePath_eq io_Copy_def Let_def
  by (auto simp: split_beta local_paths(2) copied split: option.splits sum.splits if_splits reader.splits)

lemma UploadBinary_stores:
  assumes "UploadBinary up name content w = (Inr loc, w')"
  shows "loc = locator_of up (key_of up w name) \<and>
         content_at up w' (key_of up w name) = Some content"
proof (cases up)
  case (ULocal u)
  with assms Local_UploadBinary_stores[of u name content w loc w'] show ?thesis
    by (simp add: UploadBinary_def locator_of_def key_of_def content_at_def)
next
  case (UQiniu h)
  with assms show ?thesis
    unfolding UploadBinary_def Qiniu_UploadBinary_def generateUniqueKey_eq Let_def
    by (auto simp: split_beta locator_of_def key_of_def content_at_def getUpToken_def
          invoke_done(2) bucket_call_def split: option.splits if_splits)
next
  case (UAliyun u)
  with assms show ?thesis
    unfolding UploadBinary_def Ali_UploadBinary_def generateObjectKey_dated Let_def
    by (auto simp: split_beta locator_of_def key_of_def content_at_def
          invoke_done(2) bucket_call_def split: option.splits if_splits)
next
  case (UTencent u)
  with assms show ?thesis
    unfolding UploadBinary_def Tencent_UploadBinary_def generateObjectKey_dated Let_def
    by (auto simp: split_beta locator_of_def key_of_def content_at_def
          invoke_done(2) bucket_call_def split: option.splits if_splits)
qed

section \<open>The factory\<close>

lemma kinds_distinct:
  "Local \<noteq> Qiniu" "Local \<noteq> Aliyun" "Local \<noteq> Tencent"
  "Qiniu \<noteq> Aliyun" "Qiniu \<noteq> Tencent" "Aliyun \<noteq> Tencent"
  by (simp_all add: Local_def Qiniu_def Aliyun_def Tencent_def)

lemma returning_eq: "returning iface r = (map_sum id iface (fst r), snd r)"
  by (cases r; cases "fst r") (auto simp: returning_def)

text \<open>
  C9: \<open>NewUploader\<close> on the kind \<open>Local\<close> with a value of the Local configuration never
  returns an error, whatever the value: the adapter holds the configured base path,
  or \<^verbatim>\<open>storage/uploads\<close> for an empty one, and the world is left as it was, so no file
  system call is made and nothing about the base path is checked.
\<close>

theorem NewUploader_Local_total:
  "NewUploader Local (LocalCfg cfg) w =
     (Inr (ULocal \<lparr>basePath = (if BasePath cfg = '''' then ''storage/uploads''
                                 else BasePath cfg)\<rparr>), w)"
  by (simp add: NewUploader_def local_New_def)

theorem NewUploader_Local_total_witness:
  "NewUploader Local (LocalCfg \<lparr>BasePath = ''/no/such/dir''\<rparr>) quiet =
     (Inr (ULocal \<lparr>basePath = ''/no/such/dir''\<rparr>), quiet)"
  using NewUploader_Local_total [of "\<lparr>BasePath = ''/no/such/dir''\<rparr>" quiet] by simp

text \<open>
  C6: for a recognized kind and a configuration value that is not the struct of that
  kind, \<open>NewUploader\<close> fails with \<open>ErrInvalidConfig\<close>; for any other kind it fails with
  \<open>ErrUnsupportedType\<close>; in both cases nothing is called. For the struct of the kind
  it returns what the constructor of that backend returns: the same error or the same
  adapter, and the world the constructor leaves.
\<close>

theorem NewUploader_dispatch:
  "(t \<in> {Local, Qiniu, Aliyun, Tencent} \<and> variant cfg \<noteq> Some t
      \<longrightarrow> NewUploader t cfg w = (Inl ErrInvalidConfig, w) \<and> kind ErrInvalidConfig = InvalidConfig)
   \<and> (t \<notin> {Local, Qiniu, Aliyun, Tencent}
      \<longrightarrow> NewUploader t cfg w = (Inl ErrUnsupportedType, w)
          \<and> kind ErrUnsupportedType = UnsupportedType)
   \<and> NewUploader Local (LocalCfg lc) w = (Inr (ULocal (local_New lc)), w)
   \<and> NewUploader Qiniu (QiniuCfg qc) w =
       (map_sum id UQiniu (fst (qiniu_New qc w)), snd (qiniu_New qc w))
   \<and> NewUploader Aliyun (AliyunCfg ac) w =
       (map_sum id UAliyun (fst (aliyun_New ac w)), snd (aliyun_New ac w))
   \<and> NewUploader Tencent (TencentCfg tc) w =
       (map_sum id UTencent (fst (tencent_New tc w)), snd (tencent_New tc w))"
proof -
  have invalid: "NewUploader t cfg w = (Inl ErrInvalidConfig, w)"
    if "t \<in> {Local, Qiniu, Aliyun, Tencent}" "variant cfg \<noteq> Some t"
    using that kinds_distinct
    by (cases cfg) (auto simp: NewUploader_def variant_def)
  have unsupported: "NewUploader t cfg w = (Inl ErrUnsupportedType, w)"
    if "t \<notin> {Local, Qiniu, Aliyun, Tencent}"
    using that by (simp add: NewUploader_def)
  have matching:
    "NewUploader Local (LocalCfg lc) w = (Inr (ULocal (local_New lc)), w)"
    "NewUploader Qiniu (QiniuCfg qc) w =
       (map_sum id UQiniu (fst (qiniu_New qc w)), snd (qiniu_New qc w))"
    "NewUploader Aliyun (AliyunCfg ac) w =
       (map_sum id UAliyun (fst (aliyun_New ac w)), snd (aliyun_New ac w))"
    "NewUploader Tencent (TencentCfg tc) w =
       (map_sum id UTencent (fst (tencent_New tc w)), snd (tencent_New tc w))"
    using kinds_distinct by (simp_all add: NewUploader_def returning_eq)
  from invalid unsupported matching show ?thesis by simp
qed

theorem NewUploader_dispatch_witness:
  "NewUploader Local (StringVal ''invalid config'') quiet = (Inl ErrInvalidConfig, quiet)
   \<and> NewUploader Qiniu (LocalCfg \<lparr>BasePath = ''t''\<rparr>) quiet = (Inl ErrInvalidConfig, quiet)
   \<and> NewUploader ''unsupported'' NilVal quiet = (Inl ErrUnsupportedType, quiet)"
proof -
  have a: "Local \<in> {Local, Qiniu, Aliyun, Tencent} \<and> variant (StringVal ''invalid config'') \<noteq> Some Local"
    by (simp add: variant_def)
  have b: "Qiniu \<in> {Local, Qiniu, Aliyun, Tencent} \<and> variant (LocalCfg \<lparr>BasePath = ''t''\<rparr>) \<noteq> Some Qiniu"
    by (simp add: variant_def Local_def Qiniu_def)
  have c: "''unsupported'' \<notin> {Local, Qiniu, Aliyun, Tencent}"
    by (simp add: Local_def Qiniu_def Aliyun_def Tencent_def)
  from a b c
    NewUploader_dispatch [of Local "StringVal ''invalid config''" quiet]
    NewUploader_dispatch [of Qiniu "LocalCfg \<lparr>BasePath = ''t''\<rparr>" quiet]
    NewUploader_dispatch [of "''unsupported''" NilVal quiet]
  show ?thesis by blast
qed

lemma send_eq [simp]: "send request (Reader b None) w = invoke (request b) w"
  by (simp add: send_def)

lemma UploadFile_stores:
  assumes "UploadFile up (Some h) w = (Inr loc, w')"
  shows "\<exists>b. Open h = Inr (Reader b None) \<and> loc = locator_of up (key_of up w (Filename h)) \<and>
             content_at up w' (key_of up w (Filename h)) = Some b"
proof (cases up)
  case (ULocal u)
  with assms Local_UploadFile_stores[of u h w loc w'] show ?thesis
    by (auto simp: UploadFile_def locator_of_def key_of_def content_at_def)
next
  case (UQiniu q)
  with assms show ?thesis
    unfolding UploadFile_def Qiniu_UploadFile_def Qiniu_UploadBinary_def
      generateUniqueKey_eq Let_def
    by (auto simp: split_beta locator_of_def key_of_def content_at_def getUpToken_def
          invoke_done(2) bucket_call_def split: option.splits if_splits sum.splits reader.splits)
next
  case (UAliyun u)
  with assms show ?thesis
    unfolding UploadFile_def Ali_UploadFile_def generateObjectKey_dated Let_def
    by (auto simp: split_beta locator_of_def key_of_def content_at_def send_def
          invoke_done(2) bucket_call_def split: option.splits if_splits sum.splits reader.splits)
next
  case (UTencent u)
  with assms show ?thesis
    unfolding UploadFile_def Tencent_UploadFile_def generateObjectKey_dated Let_def
    by (auto simp: split_beta locator_of_def key_of_def content_at_def send_def
          invoke_done(2) bucket_call_def split: option.splits if_splits sum.splits reader.splits)
qed

lemma UploadBinary_succeeds:
  assumes "content \<noteq> []" "is_qiniu up \<longrightarrow> name \<noteq> []"
    "calls_ok w (snd (UploadBinary up name content w))"
  shows "\<exists>loc. fst (UploadBinary up name content w) = Inr loc"
proof (cases up)
  case (ULocal u)
  with assms show ?thesis
    unfolding UploadBinary_def Local_UploadBinary_def generateFilePath_eq Let_def
    by (auto simp: split_beta calls_ok_def new_events_def split: option.splits sum.splits)
next
  case (UQiniu q)
  with assms show ?thesis
    unfolding UploadBinary_def Qiniu_UploadBinary_def generateUniqueKey_eq Let_def
    by (auto simp: split_beta calls_ok_def new_events_def is_qiniu_def split: option.splits)
next
  case (UAliyun u)
  with assms show ?thesis
    unfolding UploadBinary_def Ali_UploadBinary_def generateObjectKey_dated Let_def
    by (auto simp: split_beta calls_ok_def new_events_def split: option.splits)
next
  case (UTencent u)
  with assms show ?thesis
    unfolding UploadBinary_def Tencent_UploadBinary_def generateObjectKey_dated Let_def
    by (auto simp: split_beta calls_ok_def new_events_def split: option.splits)
qed

text \<open>The inputs that are rejected before anything is called or read.\<close>

lemma UploadFile_nil: "UploadFile up None w = (Inl NilFileHeader, w)"
  by (cases up)
    (simp_all add: UploadFile_def Local_UploadFile_def Qiniu_UploadFile_def Ali_UploadFile_def
      Tencent_UploadFile_def)

lemma UploadBinary_empty:
  "UploadBinary up name [] w = (Inl (if is_qiniu up \<and> name = [] then EmptyFileName else EmptyContent), w)"
  by (cases up)
    (simp_all add: UploadBinary_def Local_UploadBinary_def Qiniu_UploadBinary_def
      Ali_UploadBinary_def Tencent_UploadBinary_def is_qiniu_def)

lemma UploadBase64_empty:
  "UploadBase64 up name [] w = (Inl (if is_qiniu up \<and> name = [] then EmptyFileName else EmptyBase64), w)"
  by (cases up)
    (simp_all add: UploadBase64_def Local_UploadBase64_def Qiniu_UploadBase64_def
      Ali_UploadBase64_def Tencent_UploadBase64_def is_qiniu_def)

lemma Delete_empty: "\<not> is_local up \<Longrightarrow> Delete up [] w = (Some EmptyKey, w)"
  by (cases up)
    (simp_all add: Delete_def Qiniu_Delete_def Ali_Delete_def Tencent_Delete_def is_local_def)

lemma Qiniu_empty_name:
  "UploadBinary (UQiniu h) [] content w = (Inl EmptyFileName, w)"
  "UploadBase64 (UQiniu h) [] s w = (Inl EmptyFileName, w)"
  by (simp_all add: UploadBinary_def UploadBase64_def Qiniu_UploadBinary_def Qiniu_UploadBase64_def)

text \<open>Where \<open>UploadBase64\<close> is \<open>UploadBinary\<close> of the decoded bytes.\<close>

lemma UploadBase64_decoded:
  assumes "s \<noteq> []" "DecodeString s = Inr data" "is_qiniu up \<longrightarrow> data \<noteq> []"
  shows "UploadBase64 up name s w = UploadBinary up name data w"
  using assms
  by (cases up)
    (simp_all add: UploadBase64_def UploadBinary_def Local_UploadBase64_def Ali_UploadBase64_def
      Tencent_UploadBase64_def Qiniu_UploadBase64_def Qiniu_UploadBinary_def is_qiniu_def
      split_beta Let_def)

section \<open>Errors of calls reach the caller\<close>

lemma events_simps [simp]:
  "new_events w w = []"
  "new_events w (w'\<lparr>ticks := t\<rparr>) = new_events w w'"
  "new_events w (w'\<lparr>draws := d\<rparr>) = new_events w w'"
  by (simp_all add: new_events_def)

lemma UploadBinary_propagated:
  "propagated (new_events w (snd (UploadBinary up name content w)))
     (err_of (fst (UploadBinary up name content w)))"
proof (cases up)
  case (ULocal u)
  then show ?thesis
    unfolding UploadBinary_def Local_UploadBinary_def generateFilePath_eq Let_def
    by (auto simp: split_beta new_events_def exempt_def err_of_def split: option.splits sum.splits)
next
  case (UQiniu q)
  then show ?thesis
    unfolding UploadBinary_def Qiniu_UploadBinary_def generateUniqueKey_eq Let_def
    by (auto simp: split_beta new_events_def exempt_def err_of_def split: option.splits)
next
  case (UAliyun u)
  then show ?thesis
    unfolding UploadBinary_def Ali_UploadBinary_def generateObjectKey_dated Let_def
    by (auto simp: split_beta new_events_def exempt_def err_of_def split: option.splits)
next
  case (UTencent u)
  then show ?thesis
    unfolding UploadBinary_def Tencent_UploadBinary_def generateObjectKey_dated Let_def
    by (auto simp: split_beta new_events_def exempt_def err_of_def split: option.splits)
qed

lemma UploadBase64_propagated:
  "propagated (new_events w (snd (UploadBase64 up name s w)))
     (err_of (fst (UploadBase64 up name s w)))"
proof (cases up)
  case (ULocal u)
  then show ?thesis
    using UploadBinary_propagated[of w "ULocal u" name]
    by (auto simp: UploadBase64_def UploadBinary_def Local_UploadBase64_def split: sum.splits)
next
  case (UQiniu q)
  then show ?thesis
    unfolding UploadBase64_def Qiniu_UploadBase64_def generateUniqueKey_eq Let_def
    by (auto simp: split_beta new_events_def exempt_def err_of_def split: option.splits sum.splits)
next
  case (UAliyun u)
  then show ?thesis
    using UploadBinary_propagated[of w "UAliyun u" name]
    by (auto simp: UploadBase64_def UploadBinary_def Ali_UploadBase64_def split: sum.splits)
next
  case (UTencent u)
  then show ?thesis
    using UploadBinary_propagated[of w "UTencent u" name]
    by (auto simp: UploadBase64_def UploadBinary_def Tencent_UploadBase64_def split: sum.splits)
qed

lemma UploadFile_propagated:
  "propagated (new_events w (snd (UploadFile up file w)))
     (err_of (fst (UploadFile up file w)))"
proof (cases up)
  case (ULocal u)
  then show ?thesis
    unfolding UploadFile_def Local_UploadFile_def generateFilePath_eq io_Copy_def Let_def
    by (auto simp: split_beta new_events_def exempt_def err_of_def
          split: option.splits sum.splits reader.splits)
next
  case (UQiniu q)
  then show ?thesis
    using UploadBinary_propagated[of w "UQiniu q"]
    by (auto simp: UploadFile_def UploadBinary_def Qiniu_UploadFile_def
          split: option.splits sum.splits reader.splits)
next
  case (UAliyun u)
  then show ?thesis
    unfolding UploadFile_def Ali_UploadFile_def generateObjectKey_dated send_def Let_def
    by (auto simp: split_beta new_events_def exempt_def err_of_def
          split: option.splits sum.splits reader.splits)
next
  case (UTencent u)
  then show ?thesis
    unfolding UploadFile_def Tencent_UploadFile_def generateObjectKey_dated send_def Let_def
    by (auto simp: split_beta new_events_def exempt_def err_of_def
          split: option.splits sum.splits reader.splits)
qed

lemma Delete_propagated:
  "propagated (new_events w (snd (Delete up locator w))) (fst (Delete up locator w))"
proof (cases up)
  case (ULocal u)
  then show ?thesis
    unfolding Delete_def Local_Delete_def Let_def
    by (auto simp: split_beta new_events_def exempt_def err_of_def
          split: option.splits io_error.splits)
next
  case (UQiniu q)
  then show ?thesis
    unfolding Delete_def Qiniu_Delete_def
    by (auto simp: split_beta new_events_def exempt_def err_of_def split: option.splits)
next
  case (UAliyun u)
  then show ?thesis
    unfolding Delete_def Ali_Delete_def
    by (auto simp: split_beta new_events_def exempt_def err_of_def split: option.splits)
next
  case (UTencent u)
  then show ?thesis
    unfolding Delete_def Tencent_Delete_def
    by (auto simp: split_beta new_events_def exempt_def err_of_def split: option.splits)
qed

lemma constructors_propagated:
  "propagated (new_events w (snd (qiniu_New qc w))) (err_of (fst (qiniu_New qc w)))"
  "propagated (new_events w (snd (aliyun_New ac w))) (err_of (fst (aliyun_New ac w)))"
  "propagated (new_events w (snd (tencent_New tc w))) (err_of (fst (tencent_New tc w)))"
  unfolding qiniu_New_def aliyun_New_def tencent_New_def Let_def
  by (auto simp: split_beta new_events_def exempt_def err_of_def split: option.splits)

lemma NewUploader_propagated:
  "propagated (new_events w (snd (NewUploader t cfg w))) (err_of (fst (NewUploader t cfg w)))"
proof -
  have r: "propagated (new_events w (snd (returning iface r))) (err_of (fst (returning iface r)))
             = propagated (new_events w (snd r)) (err_of (fst r))" for iface :: "'u \<Rightarrow> Uploader" and r
    by (cases "fst r") (simp_all add: returning_eq err_of_def)
  show ?thesis
    unfolding NewUploader_def
    by (cases cfg) (simp_all add: r constructors_propagated)
qed

text \<open>Errors of the uploaded stream and of the decoder are returned as well.\<close>

lemma UploadFile_stream_errors:
  assumes "Open h = Inl e \<or> Open h = Inr (Reader b (Some e))"
  shows "isl (fst (UploadFile up (Some h) w))"
proof (cases up)
  case (ULocal u)
  with assms show ?thesis
    unfolding UploadFile_def Local_UploadFile_def generateFilePath_eq io_Copy_def Let_def
    by (auto simp: split_beta split: option.splits sum.splits)
next
  case (UQiniu q)
  with assms show ?thesis by (auto simp: UploadFile_def Qiniu_UploadFile_def)
next
  case (UAliyun u)
  with assms show ?thesis
    unfolding UploadFile_def Ali_UploadFile_def generateObjectKey_dated send_def Let_def
    by (auto simp: split_beta)
next
  case (UTencent u)
  with assms show ?thesis
    unfolding UploadFile_def Tencent_UploadFile_def generateObjectKey_dated send_def Let_def
    by (auto simp: split_beta)
qed

lemma UploadBase64_decode_errors:
  assumes "DecodeString s = Inl d"
  shows "isl (fst (UploadBase64 up name s w))"
  using assms
  by (cases up)
    (auto simp: UploadBase64_def Local_UploadBase64_def Qiniu_UploadBase64_def
      Ali_UploadBase64_def Tencent_UploadBase64_def split_beta Let_def)

section \<open>Uploading a stream and uploading its bytes\<close>

lemma healthy_outcome:
  "healthy w \<Longrightarrow> outcome c w = (case fs_call c (files w) of Inl e \<Rightarrow> Some e | Inr _ \<Rightarrow> None)"
  by (simp add: healthy_def outcome_def)

lemma healthy_invoke [simp]: "healthy (snd (invoke c w)) = healthy w"
  by (simp add: healthy_def)

lemma healthy_ticks [simp]: "healthy (w\<lparr>ticks := t\<rparr>) = healthy w"
  by (simp add: healthy_def)

lemma write_file_outcome:
  "(case write_file p x fs of Inl e \<Rightarrow> Some e | Inr _ \<Rightarrow> None)
     = (case write_file p y fs of Inl e \<Rightarrow> Some e | Inr _ \<Rightarrow> None)"
  by (simp add: write_file_def)

lemma is_file_put [simp]: "is_file (put p (File b) fs) p"
  by (simp add: is_file_def)

lemma invoke_objects_fs:
  "objects (snd (invoke (os_Create p) w)) = objects w"
  "objects (snd (invoke (os_WriteFile p b) w)) = objects w"
  "objects (snd (invoke (File_Write p b) w)) = objects w"
  "objects (snd (invoke (os_MkdirAll p) w)) = objects w"
proof -
  show "objects (snd (invoke (os_Create p) w)) = objects w"
    by (cases "os_Create p" w rule: invoke_cases) (simp_all add: bucket_call_def)
  show "objects (snd (invoke (os_WriteFile p b) w)) = objects w"
    by (cases "os_WriteFile p b" w rule: invoke_cases) (simp_all add: bucket_call_def)
  show "objects (snd (invoke (File_Write p b) w)) = objects w"
    by (cases "File_Write p b" w rule: invoke_cases) (simp_all add: bucket_call_def)
  show "objects (snd (invoke (os_MkdirAll p) w)) = objects w"
    by (cases "os_MkdirAll p" w rule: invoke_cases) (simp_all add: bucket_call_def)
qed

text \<open>
  Creating a file and copying a stream into it leaves the file system that writing
  the bytes of the stream in one call leaves, and fails when that fails.
\<close>

lemma create_copy_is_write:
  fixes w :: world and p :: string and b :: bytes
  assumes "healthy w"
  defines "cr \<equiv> invoke (os_Create p) w" and "wr \<equiv> invoke (os_WriteFile p b) w"
  defines "cp \<equiv> invoke (File_Write p b) (snd cr)"
  shows "fst cr = fst wr"
    and "fst cr = Some e \<Longrightarrow> files (snd cr) = files (snd wr)"
    and "fst cr = None \<Longrightarrow> fst cp = None \<and> files (snd cp) = files (snd wr)"
proof -
  show eq: "fst cr = fst wr"
    unfolding cr_def wr_def invoke_outcome healthy_outcome[OF assms(1)]
    by (simp add: fs_call_def write_file_outcome[of p "[]" _ b])
  show "fst cr = Some e \<Longrightarrow> files (snd cr) = files (snd wr)"
    using eq unfolding cr_def wr_def by simp
  assume ok: "fst cr = None"
  then have f1: "files (snd cr) = put p (File []) (files w)"
    unfolding cr_def by (rule created)
  have h1: "healthy (snd cr)" using assms(1) unfolding cr_def by simp
  have "fst cp = None"
    unfolding cp_def invoke_outcome healthy_outcome[OF h1]
    by (simp add: fs_call_def f1)
  moreover from this have "files (snd cp) = put p (File b) (files (snd cr))"
    unfolding cp_def by (rule copied)
  moreover have "files (snd wr) = put p (File b) (files w)"
    using ok eq unfolding wr_def by (intro written) simp
  ultimately show "fst cp = None \<and> files (snd cp) = files (snd wr)"
    using f1 by simp
qed

lemma Local_UploadFile_as_UploadBinary:
  fixes u :: LocalUploader and h :: FileHeader and w :: world and b :: bytes
  assumes "Open h = Inr (Reader b None)" "healthy w"
  defines "uf \<equiv> Local_UploadFile u (Some h) w"
    and "ub \<equiv> Local_UploadBinary u (Filename h) b w"
  shows "b \<noteq> [] \<Longrightarrow> map_sum kind id (fst uf) = map_sum kind id (fst ub)
           \<and> files (snd uf) = files (snd ub) \<and> objects (snd uf) = objects (snd ub)"
    and "fst uf = Inl e \<Longrightarrow> kind e = BackendError"
proof -
  let ?dir = "Join [basePath u, Format_date (clock w (ticks w))]"
  let ?p = "Join [basePath u, dated_key w (Filename h)]"
  let ?mk = "invoke (os_MkdirAll ?dir) (w\<lparr>ticks := Suc (ticks w)\<rparr>)"
  let ?w1 = "(snd ?mk)\<lparr>ticks := Suc (Suc (ticks w))\<rparr>"
  have h1: "healthy ?w1" using assms(2) by simp
  note cw = create_copy_is_write[OF h1, where p = ?p and b = b]
  show "fst uf = Inl e \<Longrightarrow> kind e = BackendError"
    using assms(1) cw(3)
    unfolding uf_def Local_UploadFile_def generateFilePath_eq io_Copy_def Let_def
    by (auto simp: split_beta local_paths(2) split: option.splits sum.splits if_splits)
  assume "b \<noteq> []"
  then show "map_sum kind id (fst uf) = map_sum kind id (fst ub)
           \<and> files (snd uf) = files (snd ub) \<and> objects (snd uf) = objects (snd ub)"
    using assms(1) cw
    unfolding uf_def ub_def Local_UploadFile_def Local_UploadBinary_def
      generateFilePath_eq io_Copy_def Let_def
    by (auto simp: split_beta local_paths(2) invoke_objects_fs split: option.splits sum.splits)
qed

section \<open>Base64: decoding an encoding\<close>

lemma index_of_nth:
  "distinct xs \<Longrightarrow> i < length xs \<Longrightarrow> index_of (xs ! i) xs k = Some (k + i)"
proof (induction xs arbitrary: i k)
  case Nil
  then show ?case by simp
next
  case (Cons x xs)
  show ?case
  proof (cases i)
    case 0
    then show ?thesis by simp
  next
    case (Suc j)
    with Cons.prems have "xs ! j \<noteq> x" "j < length xs" "distinct xs" by auto
    with Cons.IH[of j "Suc k"] Suc show ?thesis by simp
  qed
qed

lemma decodeMap_enc: "decodeMap (enc i) = Some (i mod 64)"
proof -
  have "distinct encodeStd" "length encodeStd = 64" by (simp_all add: encodeStd_def)
  then show ?thesis
    using index_of_nth[of encodeStd "i mod 64" 0] by (simp add: decodeMap_def enc_def)
qed

lemma decodeMap_pad: "decodeMap padChar = None" "\<not> is_newline padChar"
  by (simp_all add: decodeMap_def encodeStd_def padChar_def is_newline_def)

lemma sextets:
  fixes n :: nat
  shows "((n div 262144 mod 64 * 64 + n div 4096 mod 64) * 64 + n div 64 mod 64) * 64 + n mod 64
           = n mod 16777216"
proof -
  have a: "n mod 16777216 = 262144 * (n div 262144 mod 64) + n mod 262144"
    using mod_mult2_eq[of n 262144 64] by simp
  have b: "n mod 262144 = 4096 * (n div 4096 mod 64) + n mod 4096"
    using mod_mult2_eq[of n 4096 64] by simp
  have c: "n mod 4096 = 64 * (n div 64 mod 64) + n mod 64"
    using mod_mult2_eq[of n 64 64] by simp
  from a b c show ?thesis by simp
qed

lemma byte_bound: "unat (a :: byte) < 256"
  using unsigned_less[of a, where 'a = nat] by simp

lemma byte_256: "(256 :: byte) = 0" "(65536 :: byte) = 0"
  by simp_all

lemma of_nat_bytes:
  fixes a b c :: byte
  shows "(of_nat (unat a * 256 + unat b) :: byte) = b"
    and "(of_nat (unat a * 65536 + unat b * 256 + unat c) :: byte) = c"
    and "(of_nat (unat a * 65536 + unat b * 256) :: byte) = 0"
  by (simp_all add: byte_256)

lemma quantum3:
  fixes a b c :: byte
  defines "val \<equiv> unat a * 65536 + unat b * 256 + unat c"
  shows "quantum_bytes [val div 262144 mod 64, val div 4096 mod 64, val div 64 mod 64, val mod 64]
           = [a, b, c]"
proof -
  let ?ds = "[val div 262144 mod 64, val div 4096 mod 64, val div 64 mod 64, val mod 64]"
  have lt: "val < 16777216"
    using byte_bound[of a] byte_bound[of b] byte_bound[of c] unfolding val_def by simp
  have f: "foldl (\<lambda>a d. a * 64 + d) 0 (?ds @ replicate (4 - length ?ds) 0) = val"
    using sextets[of val] lt by simp
  have d1: "val div 65536 = unat a"
    using byte_bound[of b] byte_bound[of c] unfolding val_def by simp
  have d2: "val div 256 = unat a * 256 + unat b"
    using byte_bound[of c] unfolding val_def by simp
  have "(of_nat val :: byte) = c" unfolding val_def by (rule of_nat_bytes)
  then show ?thesis
    unfolding quantum_bytes_def f Let_def d1 d2 of_nat_bytes(1) by simp
qed

lemma quantum2:
  fixes a b :: byte
  defines "val \<equiv> unat a * 65536 + unat b * 256"
  shows "quantum_bytes [val div 262144 mod 64, val div 4096 mod 64, val div 64 mod 64] = [a, b]"
proof -
  let ?ds = "[val div 262144 mod 64, val div 4096 mod 64, val div 64 mod 64]"
  have lt: "val < 16777216"
    using byte_bound[of a] byte_bound[of b] unfolding val_def by simp
  have "val = 64 * (unat a * 1024 + unat b * 4)" unfolding val_def by simp
  then have "val mod 64 = 0" by simp
  then have f: "foldl (\<lambda>a d. a * 64 + d) 0 (?ds @ replicate (4 - length ?ds) 0) = val"
    using sextets[of val] lt by simp
  have d1: "val div 65536 = unat a"
    using byte_bound[of b] unfolding val_def by simp
  have d2: "val div 256 = unat a * 256 + unat b" unfolding val_def by simp
  show ?thesis
    unfolding quantum_bytes_def f Let_def d1 d2 of_nat_bytes(1) by simp
qed

lemma quantum1:
  fixes a :: byte
  defines "val \<equiv> unat a * 65536"
  shows "quantum_bytes [val div 262144 mod 64, val div 4096 mod 64] = [a]"
proof -
  let ?ds = "[val div 262144 mod 64, val div 4096 mod 64]"
  have lt: "val < 16777216" using byte_bound[of a] unfolding val_def by simp
  have "val = 64 * (64 * (unat a * 16))" unfolding val_def by simp
  then have "val mod 64 = 0" "val div 64 mod 64 = 0" by simp_all
  then have f: "foldl (\<lambda>a d. a * 64 + d) 0 (?ds @ replicate (4 - length ?ds) 0) = val"
    using sextets[of val] lt by (simp add: numeral_2_eq_2)
  have d1: "val div 65536 = unat a" unfolding val_def by simp
  show ?thesis
    unfolding quantum_bytes_def f Let_def d1 by simp
qed

lemma decode_EncodeToString: "decode [] si (EncodeToString X) = Inr X"
proof (induction X arbitrary: si rule: EncodeToString.induct)
  case (1 a b c rest)
  define val where "val = unat a * 65536 + unat b * 256 + unat c"
  have e: "EncodeToString (a # b # c # rest) =
             [enc (val div 262144), enc (val div 4096), enc (val div 64), enc val]
               @ EncodeToString rest"
    by (simp add: Let_def val_def)
  have q: "quantum_bytes [val div 262144 mod 64, val div 4096 mod 64, val div 64 mod 64, val mod 64]
             = [a, b, c]"
    unfolding val_def by (rule quantum3)
  show ?case
    unfolding e using 1 by (simp add: decodeMap_enc q)
next
  case (2 a b)
  define val where "val = unat a * 65536 + unat b * 256"
  have e: "EncodeToString [a, b] =
             [enc (val div 262144), enc (val div 4096), enc (val div 64), padChar]"
    by (simp add: Let_def val_def)
  have q: "quantum_bytes [val div 262144 mod 64, val div 4096 mod 64, val div 64 mod 64] = [a, b]"
    unfolding val_def by (rule quantum2)
  show ?case
    unfolding e by (simp add: decodeMap_enc decodeMap_pad padding_def q)
next
  case (3 a)
  define val where "val = unat a * 65536"
  have e: "EncodeToString [a] = [enc (val div 262144), enc (val div 4096), padChar, padChar]"
    by (simp add: Let_def val_def)
  have q: "quantum_bytes [val div 262144 mod 64, val div 4096 mod 64] = [a]"
    unfolding val_def by (rule quantum1)
  show ?case
    unfolding e by (simp add: decodeMap_enc decodeMap_pad padding_def q)
next
  case 4
  then show ?case by simp
qed

text \<open>Decoding the standard encoding of a byte sequence gives the byte sequence.\<close>

lemma DecodeString_EncodeToString: "DecodeString (EncodeToString X) = Inr X"
  by (simp add: DecodeString_def decode_EncodeToString)

lemma EncodeToString_empty: "EncodeToString X = [] \<longleftrightarrow> X = []"
  by (cases X rule: EncodeToString.cases) (simp_all add: Let_def)

end
